theory Spec2Isabelle
  imports Complex_Main "HOL-Library.Log_Nat"
begin

section \<open>Host values\<close>

text \<open>
  A JavaScript number: a double. The finite ones are carried as the rationals they are;
  the zero has no sign here.
\<close>

datatype number = NaN | PInf | NInf | Fin rat

text \<open>
  The double that an arithmetic operation or a numeric literal gives for the exact result
  \<open>r\<close>: the nearest number with a significand of 53 bits, the even one of two that are
  equally near; the spacing stays that of the exponent -1022 below it, and a result of
  \<open>2 ^ 1024\<close> or more is an infinity. \<open>exponentOf r\<close> is the \<open>e\<close> with
  \<open>2 ^ e \<le> r < 2 ^ (e + 1)\<close>, for a positive \<open>r\<close>.
\<close>

definition pow2 :: "int \<Rightarrow> rat" where
  "pow2 k = (if 0 \<le> k then 2 ^ nat k else 1 / 2 ^ nat (- k))"

definition roundHalfEven :: "rat \<Rightarrow> int" where
  "roundHalfEven x =
     (let f = \<lfloor>x\<rfloor>; d = x - of_int f
      in if d < 1 / 2 then f else if 1 / 2 < d then f + 1 else if even f then f else f + 1)"

definition exponentOf :: "rat \<Rightarrow> int" where
  "exponentOf r =
     (if 1 \<le> r then bitlen \<lfloor>r\<rfloor> - 1
      else (let k = bitlen \<lfloor>1 / r\<rfloor> in if r = pow2 (1 - k) then 1 - k else - k))"

definition overflowBound :: rat where
  "overflowBound = 2 ^ 1024"

definition toDouble :: "rat \<Rightarrow> number" where
  "toDouble r =
     (if r = 0 then Fin 0
      else
        (let e = max (exponentOf \<bar>r\<bar>) (- 1022);
             m = roundHalfEven (\<bar>r\<bar> * pow2 (52 - e));
             v = of_int m * pow2 (e - 52)
         in if overflowBound \<le> v then (if 0 < r then PInf else NInf) else Fin (sgn r * v)))"

text \<open>
  \<open>x += 1\<close> on a number: the sum, rounded to a double. From \<open>2 ^ 53\<close> on the sum
  \<open>x + 1\<close> is no double any more and is rounded back to \<open>x\<close>.
\<close>

fun plusOne :: "number \<Rightarrow> number" where
  "plusOne (Fin r) = toDouble (r + 1)"
| "plusOne x = x"

text \<open>The whole number \<open>n\<close> as a number; it is a double for every \<open>n\<close> up to \<open>2 ^ 53\<close>.\<close>

definition wholeNumber :: "nat \<Rightarrow> number" where
  "wholeNumber n = Fin (of_nat n)"

text \<open>
  A JavaScript value: a primitive, or a reference to an object of the store. Equality of
  two values of this type is the key comparison of a JavaScript \<open>Map\<close>: primitives by
  value, objects by identity.
\<close>

datatype jsval =
    VUndefined
  | VNull
  | VBool bool
  | VNum number
  | VStr string
  | VSymbol nat
  | VBigInt int
  | VRef nat

definition isObject :: "jsval \<Rightarrow> bool" where
  "isObject v = (case v of VRef a \<Rightarrow> True | _ \<Rightarrow> False)"

section \<open>ObjectPoolManager\<close>

text \<open>
  The three fields of the class. \<open>currentId\<close> is a number that starts at 0; the keys of
  \<open>idObjectMap\<close> are the values that \<open>getId\<close> stores there, numbers as well.
\<close>

record ObjectPoolManager =
  currentId :: number
  objectIdMap :: "jsval \<rightharpoonup> number"
  idObjectMap :: "jsval \<rightharpoonup> jsval"

definition newObjectPoolManager :: ObjectPoolManager where
  "newObjectPoolManager = \<lparr>currentId = Fin 0, objectIdMap = Map.empty, idObjectMap = Map.empty\<rparr>"

text \<open>
  \<open>getObject\<close>: \<open>Map.get\<close> returns \<open>undefined\<close> for a key that is absent and never
  throws, so the \<open>catch\<close> branch of the source is never entered.
\<close>

definition getObject :: "ObjectPoolManager \<Rightarrow> jsval \<Rightarrow> jsval" where
  "getObject pool ident =
     (case idObjectMap pool ident of None \<Rightarrow> VUndefined | Some obj \<Rightarrow> obj)"

text \<open>
  \<open>getId\<close>: when \<open>objectIdMap\<close> does not have \<open>obj\<close>, the counter is incremented
  (\<open>this._currentId += 1\<close>) and \<open>obj\<close> is registered under its new value in both maps;
  the counter is returned (\<open>return this._currentId\<close>) in both cases.
\<close>

definition getId :: "ObjectPoolManager \<Rightarrow> jsval \<Rightarrow> number \<times> ObjectPoolManager" where
  "getId pool obj =
     (if objectIdMap pool obj = None then
        (let c = plusOne (currentId pool);
             pool' = pool\<lparr>currentId := c,
                          objectIdMap := (objectIdMap pool)(obj \<mapsto> c),
                          idObjectMap := (idObjectMap pool)(VNum c \<mapsto> obj)\<rparr>
         in (currentId pool', pool'))
      else (currentId pool, pool))"

definition releaseObjectWithId :: "ObjectPoolManager \<Rightarrow> jsval \<Rightarrow> ObjectPoolManager" where
  "releaseObjectWithId pool objectId =
     (let obj = getObject pool objectId
      in pool\<lparr>idObjectMap := (idObjectMap pool)(objectId := None),
                objectIdMap := (objectIdMap pool)(obj := None)\<rparr>)"

text \<open>Sequences of calls on one pool.\<close>

datatype poolCall = GetId jsval | GetObject jsval | ReleaseObjectWithId jsval

fun callPool :: "poolCall \<Rightarrow> ObjectPoolManager \<Rightarrow> ObjectPoolManager" where
  "callPool (GetId obj) pool = snd (getId pool obj)"
| "callPool (GetObject ident) pool = pool"
| "callPool (ReleaseObjectWithId ident) pool = releaseObjectWithId pool ident"

fun callsPool :: "poolCall list \<Rightarrow> ObjectPoolManager \<Rightarrow> ObjectPoolManager" where
  "callsPool [] pool = pool"
| "callsPool (c # cs) pool = callsPool cs (callPool c pool)"

text \<open>\<open>getId\<close> is documented to take an object (\<open>@param {Object} obj\<close>).\<close>

fun objectArgs :: "poolCall \<Rightarrow> bool" where
  "objectArgs (GetId obj) = isObject obj"
| "objectArgs _ = True"

section \<open>Errors\<close>

text \<open>
  What a \<open>throw\<close> carries: the engine's own errors, an \<open>Error\<close> built by the program with
  its message, and an error raised by the scripting host with its \<open>errorNumber\<close>.
\<close>

datatype error =
    TypeError
  | RangeError
  | SyntaxError
  | Error string
  | AutomationError int

fun errorNumber :: "error \<Rightarrow> int option" where
  "errorNumber (AutomationError n) = Some n"
| "errorNumber _ = None"

section \<open>The store of objects\<close>

text \<open>
  What the host answers about an object specifier: \<open>ObjectSpecifier.classOf\<close> (\<open>None\<close> for
  \<open>undefined\<close>), the property names found in its prototype, the outcome of calling its
  \<open>class\<close> property (\<open>None\<close> when the property is \<open>undefined\<close>), the outcome of calling
  the specifier itself, and \<open>Automation.getDisplayString\<close>.
\<close>

record specifier =
  classOf :: "string option"
  protoNames :: "string list"
  classProperty :: "(error + jsval) option"
  selfCall :: "error + jsval"
  displayString :: string

text \<open>
  An object is its kind and its own properties in the order of their creation. The kind
  answers \<open>instanceof Date\<close> (with the time value), \<open>Array.isArray\<close> (with the \<open>length\<close>
  of the array), \<open>typeof\<close> and \<open>ObjectSpecifier.hasInstance\<close>; for an object that is none
  of these it is the name of the constructor that the object inherits (\<open>KInstance None\<close>:
  an object without prototype, whose \<open>constructor\<close> is \<open>undefined\<close>), and for a function
  its \<open>name\<close>. An element of an array is its property \<open>0\<close>, \<open>1\<close>, ...; an index below
  the length that has no property is a hole. The prototype of an object is not part of
  the model beyond what the kind says.
\<close>

datatype okind =
    KDate number
  | KArray nat
  | KInstance "string option"
  | KFunction string
  | KSpecifier specifier

type_synonym props = "(string \<times> jsval) list"
type_synonym hobj = "okind \<times> props"

text \<open>
  The store is the list of the objects allocated so far; the address of an object is its
  position. No object of the program lives at an address beyond the store: \<open>deref\<close> reads
  such an address as an object without constructor and without properties.
\<close>

definition deref :: "hobj list \<Rightarrow> nat \<Rightarrow> hobj" where
  "deref h a = (if a < length h then h ! a else (KInstance None, []))"

definition alloc :: "hobj list \<Rightarrow> hobj \<Rightarrow> jsval \<times> hobj list" where
  "alloc h ob = (VRef (length h), h @ [ob])"

definition plainObject :: "props \<Rightarrow> hobj" where
  "plainObject ps = (KInstance (Some ''Object''), ps)"

text \<open>
  The decimal numeral of an array index, as a property key, and the array index that a
  key is: a key is one when it is the numeral of a number below \<open>2 ^ 32 - 1\<close>.
\<close>

fun digits :: "nat \<Rightarrow> string" where
  "digits n =
     (if n < 10 then [''0123456789'' ! n]
      else digits (n div 10) @ [''0123456789'' ! (n mod 10)])"

declare digits.simps [simp del]

definition indexOfKey :: "string \<Rightarrow> nat option" where
  "indexOfKey k =
     (let n = foldl (\<lambda>a c. 10 * a + length (takeWhile (\<lambda>d. d \<noteq> c) ''0123456789'')) 0 k
      in if k \<noteq> [] \<and> digits n = k \<and> n < 4294967295 then Some n else None)"

text \<open>
  The order in which the own property keys of an object are visited (by \<open>for in\<close> and by
  \<open>JSON.stringify\<close>): the array indices first, ascending, then the other keys in the order
  of their creation.
\<close>

definition ownKeys :: "props \<Rightarrow> string list" where
  "ownKeys ps =
     map digits (sort (List.map_filter indexOfKey (map fst ps))) @
     filter (\<lambda>k. indexOfKey k = None) (map fst ps)"

definition valueAt :: "props \<Rightarrow> string \<Rightarrow> jsval" where
  "valueAt ps k = (case map_of ps k of None \<Rightarrow> VUndefined | Some x \<Rightarrow> x)"

definition entries :: "props \<Rightarrow> props" where
  "entries ps = map (\<lambda>k. (k, valueAt ps k)) (ownKeys ps)"

text \<open>
  The definition of a property, as \<open>JSON.parse\<close> does it for each member of an object: an
  existing key keeps its place.
\<close>

fun putProp :: "string \<Rightarrow> jsval \<Rightarrow> props \<Rightarrow> props" where
  "putProp k v [] = [(k, v)]"
| "putProp k v ((k', v') # ps) = (if k = k' then (k, v) # ps else (k', v') # putProp k v ps)"

text \<open>
  The assignment \<open>o[k] = x\<close> on an object. The key \<open>__proto__\<close>, unless the object has a
  property of its own under it, is the accessor of the prototype: the assignment then
  creates no property. An array index at or beyond the length of an array extends the
  length. (The keys that the program assigns are keys that a \<open>for in\<close> loop has visited,
  so \<open>length\<close> is never one of them.)
\<close>

definition assign :: "string \<Rightarrow> jsval \<Rightarrow> hobj \<Rightarrow> hobj" where
  "assign k x ob =
     (if k = ''__proto__'' \<and> map_of (snd ob) k = None then ob
      else
        ((case fst ob of
            KArray n \<Rightarrow> (case indexOfKey k of None \<Rightarrow> KArray n | Some i \<Rightarrow> KArray (max n (Suc i)))
          | kind \<Rightarrow> kind),
         putProp k x (snd ob)))"

text \<open>
  \<open>v[k]\<close>, for the keys the program reads: \<open>null\<close> and \<open>undefined\<close> have no properties
  (TypeError), a string has its characters, the other primitives have none of these keys.
\<close>

definition getProp :: "hobj list \<Rightarrow> jsval \<Rightarrow> string \<Rightarrow> error + jsval" where
  "getProp h v k =
     (case v of
        VUndefined \<Rightarrow> Inl TypeError
      | VNull \<Rightarrow> Inl TypeError
      | VStr s \<Rightarrow>
          (case indexOfKey k of
             None \<Rightarrow> Inr VUndefined
           | Some i \<Rightarrow> Inr (if i < length s then VStr [s ! i] else VUndefined))
      | VRef a \<Rightarrow> Inr (valueAt (snd (deref h a)) k)
      | _ \<Rightarrow> Inr VUndefined)"

text \<open>
  \<open>v[k] = x\<close> in strict code (a class body is strict): a write to a property of a primitive
  is a TypeError.
\<close>

definition setProp :: "hobj list \<Rightarrow> jsval \<Rightarrow> string \<Rightarrow> jsval \<Rightarrow> error + hobj list" where
  "setProp h v k x =
     (case v of
        VRef a \<Rightarrow> Inr (h[a := assign k x (deref h a)])
      | _ \<Rightarrow> Inl TypeError)"

text \<open>The keys a \<open>for (k in v)\<close> loop visits.\<close>

definition forInKeys :: "hobj list \<Rightarrow> jsval \<Rightarrow> string list" where
  "forInKeys h v =
     (case v of
        VStr s \<Rightarrow> map digits [0..<length s]
      | VRef a \<Rightarrow> ownKeys (snd (deref h a))
      | _ \<Rightarrow> [])"

text \<open>
  \<open>typeof\<close>. An object specifier is callable, as a function is.
\<close>

definition typeof :: "hobj list \<Rightarrow> jsval \<Rightarrow> string" where
  "typeof h v =
     (case v of
        VUndefined \<Rightarrow> ''undefined''
      | VNull \<Rightarrow> ''object''
      | VBool b \<Rightarrow> ''boolean''
      | VNum x \<Rightarrow> ''number''
      | VStr s \<Rightarrow> ''string''
      | VSymbol n \<Rightarrow> ''symbol''
      | VBigInt i \<Rightarrow> ''bigint''
      | VRef a \<Rightarrow>
          (case fst (deref h a) of
             KFunction name \<Rightarrow> ''function''
           | KSpecifier sp \<Rightarrow> ''function''
           | _ \<Rightarrow> ''object''))"

text \<open>
  \<open>ObjectSpecifier.hasInstance\<close>. Where the source tests it and then asks the host about
  the specifier, the model takes the answers with \<open>specifierOf\<close>, which finds them exactly
  when the test holds.
\<close>

definition hasInstance :: "hobj list \<Rightarrow> jsval \<Rightarrow> bool" where
  "hasInstance h v =
     (case v of
        VRef a \<Rightarrow> (case fst (deref h a) of KSpecifier sp \<Rightarrow> True | _ \<Rightarrow> False)
      | _ \<Rightarrow> False)"



text \<open>
  \<open>obj.constructor.name === 'Object'\<close> for an object at address \<open>a\<close>. A property
  \<open>constructor\<close> of the object itself comes before the inherited one; the \<open>name\<close> of
  \<open>undefined\<close> or \<open>null\<close> is a TypeError, a primitive has no \<open>name\<close>, a function has the
  one of its kind unless it has a property \<open>name\<close> of its own.
\<close>

definition constructorIsObject :: "hobj list \<Rightarrow> nat \<Rightarrow> error + bool" where
  "constructorIsObject h a =
     (case map_of (snd (deref h a)) ''constructor'' of
        None \<Rightarrow>
          (case fst (deref h a) of
             KInstance None \<Rightarrow> Inl TypeError
           | KInstance (Some c) \<Rightarrow> Inr (c = ''Object'')
           | _ \<Rightarrow> Inr False)
      | Some VUndefined \<Rightarrow> Inl TypeError
      | Some VNull \<Rightarrow> Inl TypeError
      | Some (VRef b) \<Rightarrow>
          Inr (case map_of (snd (deref h b)) ''name'' of
                 Some x \<Rightarrow> x = VStr ''Object''
               | None \<Rightarrow> (case fst (deref h b) of KFunction name \<Rightarrow> name = ''Object'' | _ \<Rightarrow> False))
      | Some _ \<Rightarrow> Inr False)"

section \<open>Dates\<close>

text \<open>
  \<open>x / 1000\<close> and \<open>x * 1000\<close> on a number, each rounded to a double, and the time value
  \<open>new Date(x)\<close> keeps of a number: not a number outside the range of 8.64e15
  milliseconds around the epoch, truncated to a whole number of milliseconds inside it.
\<close>

fun divideBy1000 :: "number \<Rightarrow> number" where
  "divideBy1000 (Fin r) = toDouble (r / 1000)"
| "divideBy1000 x = x"

fun times1000 :: "number \<Rightarrow> number" where
  "times1000 (Fin r) = toDouble (r * 1000)"
| "times1000 x = x"

definition toInteger :: "rat \<Rightarrow> rat" where
  "toInteger r = (if 0 \<le> r then of_int \<lfloor>r\<rfloor> else of_int \<lceil>r\<rceil>)"

fun timeClip :: "number \<Rightarrow> number" where
  "timeClip (Fin r) = (if \<bar>r\<bar> \<le> 8640000000000000 then Fin (toInteger r) else NaN)"
| "timeClip x = NaN"

section \<open>The state of the bridge\<close>

text \<open>
  Calls that reach the scripting host: \<open>specifier.class()\<close>, the query of the class
  property, and \<open>specifier()\<close>, the evaluation of the specifier itself; each with the
  address of the specifier.
\<close>

datatype hostCall = ClassCall nat | SelfCall nat

datatype logLine = ErrorUnwrappingParams error | ErrorWrappingResult error

text \<open>
  The state the functions work on: the objects, the global \<open>objectPoolManager\<close> that the
  \<open>jsonTranslator\<close> holds, the calls made to the host, and the lines written by
  \<open>console.log\<close>.
\<close>

record world =
  store :: "hobj list"
  objectPoolManager :: ObjectPoolManager
  hostCalls :: "hostCall list"
  console :: "logLine list"

section \<open>Util\<close>

definition specifierOf :: "hobj list \<Rightarrow> jsval \<Rightarrow> specifier option" where
  "specifierOf h v =
     (case v of
        VRef a \<Rightarrow> (case fst (deref h a) of KSpecifier sp \<Rightarrow> Some sp | _ \<Rightarrow> None)
      | _ \<Rightarrow> None)"

text \<open>
  \<open>getAssociatedApplicationName\<close>: the match of the display string against
  \<open>/^Application\(['"]([^)]*)['"]\)/\<close>. After the opening quote the group takes the
  characters up to the first closing parenthesis; the last of them has to be the closing
  quote, and the parenthesis has to be there.
\<close>

definition quoteChars :: "char list" where
  "quoteChars = [CHR 0x27, CHR 0x22]"

definition matchApplication :: "string \<Rightarrow> string option" where
  "matchApplication s =
     (if take 12 s = ''Application('' then
        (case drop 12 s of
           [] \<Rightarrow> None
         | q # u \<Rightarrow>
             (let body = takeWhile (\<lambda>c. c \<noteq> CHR '')'') u;
                  rest = dropWhile (\<lambda>c. c \<noteq> CHR '')'') u
              in if q \<in> set quoteChars \<and> body \<noteq> [] \<and> last body \<in> set quoteChars \<and> rest \<noteq> []
                 then Some (butlast body) else None))
      else None)"

definition getAssociatedApplicationName :: "specifier \<Rightarrow> jsval" where
  "getAssociatedApplicationName sp =
     (case matchApplication (displayString sp) of Some name \<Rightarrow> VStr name | None \<Rightarrow> VNull)"

definition guessIsSpecifierContainer :: "hobj list \<Rightarrow> jsval \<Rightarrow> bool" where
  "guessIsSpecifierContainer h specifier =
     (case specifierOf h specifier of
        None \<Rightarrow> False
      | Some sp \<Rightarrow> list_all (\<lambda>propName. propName \<in> set (protoNames sp)) [''whose'', ''at''])"

text \<open>
  \<open>guessClassOfSpecifier\<close>. Every error of \<open>specifier.class()\<close> is caught: error number
  -1700 gives \<open>classOf\<close>, any other leaves \<open>specifierClass\<close> undefined.
\<close>

definition classOfValue :: "specifier \<Rightarrow> jsval" where
  "classOfValue sp = (case classOf sp of None \<Rightarrow> VUndefined | Some c \<Rightarrow> VStr c)"

definition classOfText :: "specifier \<Rightarrow> string" where
  "classOfText sp = (case classOf sp of None \<Rightarrow> ''undefined'' | Some c \<Rightarrow> c)"

definition guessClassOfSpecifier :: "jsval \<Rightarrow> world \<Rightarrow> jsval \<times> world" where
  "guessClassOfSpecifier specifier w =
     (case specifierOf (store w) specifier of
        None \<Rightarrow> (VUndefined, w)
      | Some sp \<Rightarrow>
          if classOf sp = Some ''application'' then (VStr ''application'', w)
          else if guessIsSpecifierContainer (store w) specifier
          then (VStr (''array::'' @ classOfText sp), w)
          else
            (case classProperty sp of
               None \<Rightarrow> (classOfValue sp, w)
             | Some outcome \<Rightarrow>
                 (let w' = w\<lparr>hostCalls := hostCalls w @ [ClassCall (case specifier of VRef a \<Rightarrow> a | _ \<Rightarrow> 0)]\<rparr>
                  in case outcome of
                       Inr specifierClass \<Rightarrow> (specifierClass, w')
                     | Inl e \<Rightarrow>
                         if errorNumber e = Some (- 1700) then (classOfValue sp, w')
                         else (VUndefined, w'))))"

definition isJsonNode :: "hobj list \<Rightarrow> jsval \<Rightarrow> bool" where
  "isJsonNode h obj =
     (obj = VNull \<or> typeof h obj \<in> set [''undefined'', ''string'', ''number'', ''boolean''])"

section \<open>JsonTranslator.wrapToJson\<close>

text \<open>
  A \<open>reference\<close> node: \<open>getId\<close> registers the object, then the node is allocated with
  the fields that the branch lists, in its order.
\<close>

definition referenceNode :: "jsval \<Rightarrow> (number \<Rightarrow> props) \<Rightarrow> world \<Rightarrow> (error + jsval) \<times> world" where
  "referenceNode obj fieldsFor w =
     (let (ident, pool') = getId (objectPoolManager w) obj;
          (node, h') = alloc (store w) (plainObject (fieldsFor ident))
      in (Inr node, w\<lparr>store := h'\<rparr>\<lparr>objectPoolManager := pool'\<rparr>))"

text \<open>
  The loop \<open>for (k in obj) data[k] = this.wrapToJson(obj[k])\<close>, over the properties of
  \<open>obj\<close> in the order of \<open>entries\<close> (no call of \<open>wrapToJson\<close> changes an object that
  exists, so the properties are those found when the loop starts). \<open>data\<close> is local to the
  call until the loop is done: it enters the store then.
\<close>

fun wrapProps ::
  "(jsval \<Rightarrow> 's \<Rightarrow> (error + jsval) \<times> 's) \<Rightarrow> props \<Rightarrow> hobj \<Rightarrow> 's \<Rightarrow> (error + hobj) \<times> 's"
where
  "wrapProps f [] data w = (Inr data, w)"
| "wrapProps f ((k, v) # ps) data w =
     (case f v w of
        (Inl e, w') \<Rightarrow> (Inl e, w')
      | (Inr node, w') \<Rightarrow> wrapProps f ps (assign k node data) w')"

definition containerNode :: "string \<Rightarrow> hobj \<Rightarrow> world \<Rightarrow> (error + jsval) \<times> world" where
  "containerNode tag data w =
     (let (d, h1) = alloc (store w) data;
          (node, h2) = alloc h1 (plainObject [(''type'', VStr tag), (''data'', d)])
      in (Inr node, w\<lparr>store := h2\<rparr>))"

text \<open>
  \<open>wrapToJson\<close>. The first argument is the number of calls the stack still takes: a call
  beyond it is the engine's RangeError.
\<close>

primrec wrapToJson :: "nat \<Rightarrow> jsval \<Rightarrow> world \<Rightarrow> (error + jsval) \<times> world" where
  "wrapToJson 0 obj0 w = (Inl RangeError, w)"
| "wrapToJson (Suc n) obj0 w =
     (let obj = (if obj0 = VUndefined then VNull else obj0) in
      if isJsonNode (store w) obj then
        (let (node, h') = alloc (store w) (plainObject [(''type'', VStr ''plain''), (''data'', obj)])
         in (Inr node, w\<lparr>store := h'\<rparr>))
      else
        (case specifierOf (store w) obj of
           Some sp \<Rightarrow>
             (let (guessClass, w1) = guessClassOfSpecifier obj w in
              if guessClass = VUndefined then
                referenceNode obj (\<lambda>ident.
                  [(''type'', VStr ''reference''), (''objId'', VNum ident),
                   (''app'', getAssociatedApplicationName sp), (''className'', VStr ''unknown'')]) w1
              else if guessClass = VStr ''application'' then
                referenceNode obj (\<lambda>ident.
                  [(''type'', VStr ''reference''), (''objId'', VNum ident),
                   (''app'', getAssociatedApplicationName sp), (''className'', VStr ''application'')]) w1
              else
                (case guessClass of
                   VStr c \<Rightarrow>
                     if take 7 c = ''array::'' then
                       referenceNode obj (\<lambda>ident.
                         [(''type'', VStr ''reference''), (''objId'', VNum ident),
                          (''app'', getAssociatedApplicationName sp), (''className'', guessClass)]) w1
                     else
                       referenceNode obj (\<lambda>ident.
                         [(''type'', VStr ''reference''), (''objId'', VNum ident),
                          (''className'', guessClass), (''app'', getAssociatedApplicationName sp)]) w1
                 | _ \<Rightarrow> (Inl TypeError, w1)))
         | None \<Rightarrow>
             if typeof (store w) obj = ''object'' then
               (case obj of
                  VRef a \<Rightarrow>
                    (case fst (deref (store w) a) of
                       KDate t \<Rightarrow>
                         (let (node, h') = alloc (store w)
                                (plainObject [(''type'', VStr ''date''), (''data'', VNum (divideBy1000 t))])
                          in (Inr node, w\<lparr>store := h'\<rparr>))
                     | KArray len \<Rightarrow>
                         (case wrapProps (wrapToJson n) (entries (snd (deref (store w) a))) (KArray 0, []) w of
                            (Inl e, w') \<Rightarrow> (Inl e, w')
                          | (Inr data, w') \<Rightarrow> containerNode ''array'' data w')
                     | _ \<Rightarrow>
                         (case constructorIsObject (store w) a of
                            Inl e \<Rightarrow> (Inl e, w)
                          | Inr True \<Rightarrow>
                              (case wrapProps (wrapToJson n) (entries (snd (deref (store w) a)))
                                      (plainObject []) w of
                                 (Inl e, w') \<Rightarrow> (Inl e, w')
                               | (Inr data, w') \<Rightarrow> containerNode ''dict'' data w')
                          | Inr False \<Rightarrow> (Inl (Error ''wrapObjToJson: Unknown type: object''), w)))
                | _ \<Rightarrow> (Inl (Error ''wrapObjToJson: Unknown type: object''), w))
             else if typeof (store w) obj = ''function'' then
               referenceNode obj (\<lambda>ident.
                 [(''type'', VStr ''reference''), (''objId'', VNum ident),
                  (''className'', VStr ''function'')]) w
             else (Inl (Error (''Unknown type: '' @ typeof (store w) obj)), w)))"




section \<open>JSON texts\<close>

text \<open>
  A JSON text is carried as its syntax tree. A string that is not a JSON text is
  \<open>NotJson\<close>.
\<close>

datatype json =
    JNull
  | JBool bool
  | JNum rat
  | JStr string
  | JArr "json list"
  | JObj "(string \<times> json) list"

datatype wire = Text json | NotJson

text \<open>
  What the engine and the host provide and the source does not define: \<open>ToNumber\<close> of a
  string or of an object that is not a date, \<open>Date.prototype.toISOString\<close>, what
  \<open>JSON.stringify\<close> makes of an object specifier, and whether a symbol can be the key of
  a \<open>WeakMap\<close>.
\<close>

record engine =
  numberOf :: "hobj list \<Rightarrow> jsval \<Rightarrow> error + number"
  toISOString :: "rat \<Rightarrow> string"
  specifierToJSON :: "specifier \<Rightarrow> error + json option"
  symbolsAsWeakMapKeys :: bool

text \<open>
  \<open>JSON.parse\<close>: a number of the text is the double nearest to it; every array and object
  of the text is a new object of the store; a key that is repeated keeps its first place
  and its last value.
\<close>

fun JSON_parse :: "json \<Rightarrow> hobj list \<Rightarrow> jsval \<times> hobj list"
  and parseElements :: "json list \<Rightarrow> nat \<Rightarrow> hobj list \<Rightarrow> props \<times> hobj list"
  and parseMembers :: "(string \<times> json) list \<Rightarrow> props \<Rightarrow> hobj list \<Rightarrow> props \<times> hobj list"
where
  "JSON_parse JNull h = (VNull, h)"
| "JSON_parse (JBool b) h = (VBool b, h)"
| "JSON_parse (JNum r) h = (VNum (toDouble r), h)"
| "JSON_parse (JStr s) h = (VStr s, h)"
| "JSON_parse (JArr js) h =
     (let (ps, h') = parseElements js 0 h in alloc h' (KArray (length js), ps))"
| "JSON_parse (JObj ms) h =
     (let (ps, h') = parseMembers ms [] h in alloc h' (plainObject ps))"
| "parseElements [] i h = ([], h)"
| "parseElements (j # js) i h =
     (let (v, h1) = JSON_parse j h;
          (ps, h2) = parseElements js (Suc i) h1
      in ((digits i, v) # ps, h2))"
| "parseMembers [] acc h = (acc, h)"
| "parseMembers ((k, j) # ms) acc h =
     (let (v, h1) = JSON_parse j h in parseMembers ms (putProp k v acc) h1)"

section \<open>JsonTranslator.unwrapFromJson\<close>

text \<open>
  \<open>ToNumber\<close>, applied to \<open>obj.data\<close> by \<open>obj.data * 1000\<close>. A symbol cannot be
  converted and a BigInt cannot be multiplied with a number (TypeError); a date gives its
  time value.
\<close>

definition toNumber :: "engine \<Rightarrow> hobj list \<Rightarrow> jsval \<Rightarrow> error + number" where
  "toNumber E h v =
     (case v of
        VUndefined \<Rightarrow> Inr NaN
      | VNull \<Rightarrow> Inr (Fin 0)
      | VBool b \<Rightarrow> Inr (Fin (if b then 1 else 0))
      | VNum x \<Rightarrow> Inr x
      | VStr s \<Rightarrow> numberOf E h v
      | VSymbol n \<Rightarrow> Inl TypeError
      | VBigInt i \<Rightarrow> Inl TypeError
      | VRef a \<Rightarrow> (case fst (deref h a) of KDate t \<Rightarrow> Inr t | _ \<Rightarrow> numberOf E h v))"

text \<open>
  The loop \<open>for (k in obj.data) obj.data[k] = this.unwrapFromJson(obj.data[k])\<close>, over the
  keys found when the loop starts. Each round reads \<open>obj.data\<close>, decodes its property
  \<open>k\<close> and writes the result back into the same object.
\<close>

fun unwrapKeys ::
  "(jsval \<Rightarrow> world \<Rightarrow> (error + jsval) \<times> world) \<Rightarrow> jsval \<Rightarrow> string list \<Rightarrow> world \<Rightarrow> (error + unit) \<times> world"
where
  "unwrapKeys f obj [] w = (Inr (), w)"
| "unwrapKeys f obj (k # ks) w =
     (case getProp (store w) obj ''data'' of
        Inl e \<Rightarrow> (Inl e, w)
      | Inr d \<Rightarrow>
          (case getProp (store w) d k of
             Inl e \<Rightarrow> (Inl e, w)
           | Inr x \<Rightarrow>
               (case f x w of
                  (Inl e, w') \<Rightarrow> (Inl e, w')
                | (Inr r, w') \<Rightarrow>
                    (case setProp (store w') d k r of
                       Inl e \<Rightarrow> (Inl e, w')
                     | Inr h' \<Rightarrow> unwrapKeys f obj ks (w'\<lparr>store := h'\<rparr>)))))"

text \<open>
  \<open>unwrapFromJson\<close>. The second argument is the number of calls the stack still takes.
  Neither \<open>getObject\<close> nor \<open>Map.get\<close> throws, so the \<open>catch\<close> of the \<open>reference\<close> branch
  is never entered; a node whose \<open>type\<close> is none of the five falls off the end of the
  function, which returns \<open>undefined\<close>.
\<close>

primrec unwrapFromJson :: "engine \<Rightarrow> nat \<Rightarrow> jsval \<Rightarrow> world \<Rightarrow> (error + jsval) \<times> world" where
  "unwrapFromJson E 0 obj w = (Inl RangeError, w)"
| "unwrapFromJson E (Suc n) obj w =
     (case getProp (store w) obj ''type'' of
        Inl e \<Rightarrow> (Inl e, w)
      | Inr ty \<Rightarrow>
          if ty = VStr ''plain'' then (getProp (store w) obj ''data'', w)
          else if ty = VStr ''date'' then
            (case getProp (store w) obj ''data'' of
               Inl e \<Rightarrow> (Inl e, w)
             | Inr d \<Rightarrow>
                 (case toNumber E (store w) d of
                    Inl e \<Rightarrow> (Inl e, w)
                  | Inr x \<Rightarrow>
                      (let (date, h') = alloc (store w) (KDate (timeClip (times1000 x)), [])
                       in (Inr date, w\<lparr>store := h'\<rparr>))))
          else if ty = VStr ''array'' \<or> ty = VStr ''dict'' then
            (case getProp (store w) obj ''data'' of
               Inl e \<Rightarrow> (Inl e, w)
             | Inr d \<Rightarrow>
                 (case unwrapKeys (unwrapFromJson E n) obj (forInKeys (store w) d) w of
                    (Inl e, w') \<Rightarrow> (Inl e, w')
                  | (Inr u, w') \<Rightarrow> (getProp (store w') obj ''data'', w')))
          else if ty = VStr ''reference'' then
            (case getProp (store w) obj ''objId'' of
               Inl e \<Rightarrow> (Inl e, w)
             | Inr ident \<Rightarrow> (Inr (getObject (objectPoolManager w) ident), w))
          else (Inr VUndefined, w))"

section \<open>JSON.stringify\<close>

text \<open>
  An array element that has no JSON text (\<open>undefined\<close>, a hole, a function, a symbol) is
  written as \<open>null\<close>; an object member that has none is left out.
\<close>

fun stringifyElements :: "(jsval \<Rightarrow> error + json option) \<Rightarrow> jsval list \<Rightarrow> error + json list" where
  "stringifyElements f [] = Inr []"
| "stringifyElements f (v # vs) =
     (case f v of
        Inl e \<Rightarrow> Inl e
      | Inr r \<Rightarrow>
          (case stringifyElements f vs of
             Inl e \<Rightarrow> Inl e
           | Inr js \<Rightarrow> Inr ((case r of None \<Rightarrow> JNull | Some j \<Rightarrow> j) # js)))"

fun stringifyMembers :: "(jsval \<Rightarrow> error + json option) \<Rightarrow> props \<Rightarrow> error + (string \<times> json) list" where
  "stringifyMembers f [] = Inr []"
| "stringifyMembers f ((k, v) # ps) =
     (case f v of
        Inl e \<Rightarrow> Inl e
      | Inr r \<Rightarrow>
          (case stringifyMembers f ps of
             Inl e \<Rightarrow> Inl e
           | Inr ms \<Rightarrow> Inr (case r of None \<Rightarrow> ms | Some j \<Rightarrow> (k, j) # ms)))"

text \<open>
  \<open>JSON.stringify\<close> of a value: \<open>None\<close> is the result \<open>undefined\<close>. The arguments are the
  number of calls the stack still takes and the objects that are being written (an object
  met again inside itself is a circular structure: TypeError). An array is written from
  index 0 up to its length, an object in the order of \<open>entries\<close>. A date is written by its
  \<open>toJSON\<close>; no other object of the store has one.
\<close>

primrec JSON_stringify :: "engine \<Rightarrow> nat \<Rightarrow> nat list \<Rightarrow> hobj list \<Rightarrow> jsval \<Rightarrow> error + json option" where
  "JSON_stringify E 0 stack h v = Inl RangeError"
| "JSON_stringify E (Suc n) stack h v =
     (case v of
        VUndefined \<Rightarrow> Inr None
      | VNull \<Rightarrow> Inr (Some JNull)
      | VBool b \<Rightarrow> Inr (Some (JBool b))
      | VNum x \<Rightarrow> Inr (Some (case x of Fin r \<Rightarrow> JNum r | _ \<Rightarrow> JNull))
      | VStr s \<Rightarrow> Inr (Some (JStr s))
      | VSymbol i \<Rightarrow> Inr None
      | VBigInt i \<Rightarrow> Inl TypeError
      | VRef a \<Rightarrow>
          if a \<in> set stack then Inl TypeError
          else
            (case fst (deref h a) of
               KDate t \<Rightarrow>
                 Inr (Some (case t of Fin r \<Rightarrow> JStr (toISOString E r) | _ \<Rightarrow> JNull))
             | KArray len \<Rightarrow>
                 (case stringifyElements (JSON_stringify E n (a # stack) h)
                         (map (\<lambda>i. valueAt (snd (deref h a)) (digits i)) [0..<len]) of
                    Inl e \<Rightarrow> Inl e
                  | Inr js \<Rightarrow> Inr (Some (JArr js)))
             | KInstance c \<Rightarrow>
                 (case stringifyMembers (JSON_stringify E n (a # stack) h)
                         (entries (snd (deref h a))) of
                    Inl e \<Rightarrow> Inl e
                  | Inr ms \<Rightarrow> Inr (Some (JObj ms)))
             | KFunction name \<Rightarrow> Inr None
             | KSpecifier sp \<Rightarrow> specifierToJSON E sp))"

section \<open>JsonTranslator.strIOFuncWrapper\<close>

text \<open>An operation of the bridge: it takes the decoded parameters and may throw.\<close>

type_synonym operation = "jsval \<Rightarrow> world \<Rightarrow> (error + jsval) \<times> world"

text \<open>
  The wrapped function. \<open>JSON.parse\<close> stands outside of any \<open>try\<close>. \<open>unwrapFromJson\<close> is
  inside one whose \<open>catch\<close> writes a line and leaves \<open>params\<close> as parsed. \<open>func(params)\<close>
  stands outside of any \<open>try\<close>. \<open>wrapToJson\<close> is inside one whose \<open>catch\<close> writes a
  line and leaves \<open>result\<close> as the operation returned it. The value of the call is
  \<open>JSON.stringify(result)\<close>.
\<close>

definition strIOFuncWrapper :: "engine \<Rightarrow> nat \<Rightarrow> operation \<Rightarrow> wire \<Rightarrow> world \<Rightarrow> (error + json option) \<times> world" where
  "strIOFuncWrapper E depth func strParams w =
     (case strParams of
        NotJson \<Rightarrow> (Inl SyntaxError, w)
      | Text j \<Rightarrow>
          (let (parsed, h) = JSON_parse j (store w);
               (params, w2) =
                 (case unwrapFromJson E depth parsed (w\<lparr>store := h\<rparr>) of
                    (Inr v, w1) \<Rightarrow> (v, w1)
                  | (Inl e, w1) \<Rightarrow> (parsed, w1\<lparr>console := console w1 @ [ErrorUnwrappingParams e]\<rparr>))
           in case func params w2 of
                (Inl e, w3) \<Rightarrow> (Inl e, w3)
              | (Inr returned, w3) \<Rightarrow>
                  (let (result, w5) =
                         (case wrapToJson depth returned w3 of
                            (Inr node, w4) \<Rightarrow> (node, w4)
                          | (Inl e, w4) \<Rightarrow> (returned, w4\<lparr>console := console w4 @ [ErrorWrappingResult e]\<rparr>))
                   in (JSON_stringify E depth [] (store w5) result, w5))))"

text \<open>
  Two of the wrapped operations: \<open>_echo\<close>, and \<open>_releaseObjectWithId\<close>, whose parameter
  pattern \<open>{id}\<close> reads the property \<open>id\<close> of the parameters.
\<close>

definition echoInner :: operation where
  "echoInner params w = (Inr params, w)"

definition releaseObjectWithIdInner :: operation where
  "releaseObjectWithIdInner params w =
     (case getProp (store w) params ''id'' of
        Inl e \<Rightarrow> (Inl e, w)
      | Inr ident \<Rightarrow>
          (Inr VUndefined,
           w\<lparr>objectPoolManager := releaseObjectWithId (objectPoolManager w) ident\<rparr>))"

section \<open>The first version of the helper\<close>

text \<open>
  \<open>getObjectId\<close>: a counter and a \<open>WeakMap\<close> from objects to ids. A \<open>WeakMap\<close> takes
  objects as keys, and symbols where the engine allows them: \<open>WeakMap.get\<close> finds nothing
  for any other key, and \<open>WeakMap.set\<close> throws a TypeError for one, after the counter has
  been incremented.
\<close>

definition canBeHeldWeakly :: "engine \<Rightarrow> jsval \<Rightarrow> bool" where
  "canBeHeldWeakly E v =
     (case v of VRef a \<Rightarrow> True | VSymbol n \<Rightarrow> symbolsAsWeakMapKeys E | _ \<Rightarrow> False)"

record idGenerator =
  idCount :: number
  objIdMap :: "jsval \<rightharpoonup> number"

definition getObjectId :: "engine \<Rightarrow> idGenerator \<Rightarrow> jsval \<Rightarrow> (error + number) \<times> idGenerator" where
  "getObjectId E g object =
     (case (if canBeHeldWeakly E object then objIdMap g object else None) of
        None \<Rightarrow>
          (let g1 = g\<lparr>idCount := plusOne (idCount g)\<rparr>
           in if canBeHeldWeakly E object
              then (Inr (idCount g1), g1\<lparr>objIdMap := (objIdMap g1)(object \<mapsto> idCount g1)\<rparr>)
              else (Inl TypeError, g1))
      | Some objectId \<Rightarrow> (Inr objectId, g))"

text \<open>
  \<open>cacheObjct\<close> and the global \<open>objectCacheMap\<close>, whose keys are the ids.
\<close>

record cache =
  generator :: idGenerator
  objectCacheMap :: "number \<rightharpoonup> jsval"

definition cacheObjct :: "engine \<Rightarrow> cache \<Rightarrow> jsval \<Rightarrow> (error + number) \<times> cache" where
  "cacheObjct E c obj =
     (case getObjectId E (generator c) obj of
        (Inl e, g) \<Rightarrow> (Inl e, c\<lparr>generator := g\<rparr>)
      | (Inr ident, g) \<Rightarrow>
          (Inr ident, c\<lparr>generator := g, objectCacheMap := (objectCacheMap c)(ident \<mapsto> obj)\<rparr>))"

definition getCachedObject :: "cache \<Rightarrow> number \<Rightarrow> jsval" where
  "getCachedObject c ident =
     (case objectCacheMap c ident of None \<Rightarrow> VUndefined | Some obj \<Rightarrow> obj)"

definition guessIsContainerSpecifier :: "hobj list \<Rightarrow> jsval \<Rightarrow> bool" where
  "guessIsContainerSpecifier h specifier =
     (case specifierOf h specifier of
        None \<Rightarrow> False
      | Some sp \<Rightarrow> list_all (\<lambda>propName. propName \<in> set (protoNames sp)) [''whose'', ''at''])"

text \<open>
  \<open>guessClassOfSpecifier\<close> of the first version: \<open>specifier.class()\<close> is called without a
  test of the property (a call of \<open>undefined\<close> is a TypeError, caught as every error is),
  and whatever is caught the guess is \<open>undefined\<close>.
\<close>

definition guessClassOfSpecifierV1 :: "jsval \<Rightarrow> world \<Rightarrow> jsval \<times> world" where
  "guessClassOfSpecifierV1 specifier w =
     (case specifierOf (store w) specifier of
        None \<Rightarrow> (VUndefined, w)
      | Some sp \<Rightarrow>
          if guessIsContainerSpecifier (store w) specifier
          then (VStr (''array::'' @ classOfText sp), w)
          else
            (case classProperty sp of
               None \<Rightarrow> (VUndefined, w)
             | Some outcome \<Rightarrow>
                 (let w' = w\<lparr>hostCalls := hostCalls w @ [ClassCall (case specifier of VRef a \<Rightarrow> a | _ \<Rightarrow> 0)]\<rparr>
                  in case outcome of
                       Inr specifierClass \<Rightarrow> (specifierClass, w')
                     | Inl e \<Rightarrow> (VUndefined, w'))))"

definition isJsonNodeValue :: "hobj list \<Rightarrow> jsval \<Rightarrow> bool" where
  "isJsonNodeValue h obj =
     (obj = VNull \<or> typeof h obj \<in> set [''undefined'', ''string'', ''number'', ''boolean''])"

text \<open>
  \<open>isPlainObj\<close>, as the test \<open>!isPlainObj(evaluated)\<close> reads it: the result \<open>undefined\<close> of
  the case that no branch covers counts as false.
\<close>

definition isPlainObj :: "hobj list \<Rightarrow> jsval \<Rightarrow> bool" where
  "isPlainObj h obj =
     (if isJsonNodeValue h obj then True
      else if typeof h obj = ''object'' then
        (case obj of
           VRef a \<Rightarrow> list_all (\<lambda>(k, v). isJsonNodeValue h v) (entries (snd (deref h a)))
         | _ \<Rightarrow> True)
      else False)"

text \<open>
  \<open>obj()\<close>: the call of the specifier itself, which the host evaluates.
\<close>

definition callSpecifier :: "nat \<Rightarrow> specifier \<Rightarrow> world \<Rightarrow> (error + jsval) \<times> world" where
  "callSpecifier a sp w = (selfCall sp, w\<lparr>hostCalls := hostCalls w @ [SelfCall a]\<rparr>)"

definition referenceNodeV1 ::
  "engine \<Rightarrow> jsval \<Rightarrow> (number \<Rightarrow> props) \<Rightarrow> world \<times> cache \<Rightarrow> (error + jsval) \<times> world \<times> cache"
where
  "referenceNodeV1 E obj fieldsFor wc =
     (case cacheObjct E (snd wc) obj of
        (Inl e, c') \<Rightarrow> (Inl e, fst wc, c')
      | (Inr ident, c') \<Rightarrow>
          (let (node, h') = alloc (store (fst wc)) (plainObject (fieldsFor ident))
           in (Inr node, (fst wc)\<lparr>store := h'\<rparr>, c')))"

definition containerNodeV1 ::
  "string \<Rightarrow> hobj \<Rightarrow> world \<times> cache \<Rightarrow> (error + jsval) \<times> world \<times> cache"
where
  "containerNodeV1 tag data wc =
     (let (d, h1) = alloc (store (fst wc)) data;
          (node, h2) = alloc h1 (plainObject [(''type'', VStr tag), (''data'', d)])
      in (Inr node, (fst wc)\<lparr>store := h2\<rparr>, snd wc))"

text \<open>
  \<open>wrapObjToJson\<close> of the first version. A specifier whose class guess is \<open>undefined\<close> is
  called, and what the call returns is wrapped in its place; a specifier of any other
  class than \<open>application\<close> and the arrays is called for its \<open>plainRepr\<close>.
\<close>

primrec wrapObjToJson ::
  "engine \<Rightarrow> nat \<Rightarrow> jsval \<Rightarrow> world \<times> cache \<Rightarrow> (error + jsval) \<times> world \<times> cache"
where
  "wrapObjToJson E 0 obj0 wc = (Inl RangeError, wc)"
| "wrapObjToJson E (Suc n) obj0 wc =
     (let obj = (if obj0 = VUndefined then VNull else obj0); w = fst wc; c = snd wc in
      if isJsonNodeValue (store w) obj then
        (let (node, h') = alloc (store w) (plainObject [(''type'', VStr ''plain''), (''data'', obj)])
         in (Inr node, w\<lparr>store := h'\<rparr>, c))
      else if typeof (store w) obj = ''object'' then
        (case obj of
           VRef a \<Rightarrow>
             (case fst (deref (store w) a) of
                KDate t \<Rightarrow>
                  (let (node, h') = alloc (store w)
                         (plainObject [(''type'', VStr ''date''), (''data'', VNum (divideBy1000 t))])
                   in (Inr node, w\<lparr>store := h'\<rparr>, c))
              | KArray len \<Rightarrow>
                  (case wrapProps (wrapObjToJson E n) (entries (snd (deref (store w) a))) (KArray 0, []) wc of
                     (Inl e, wc') \<Rightarrow> (Inl e, wc')
                   | (Inr data, wc') \<Rightarrow> containerNodeV1 ''array'' data wc')
              | _ \<Rightarrow>
                  (case constructorIsObject (store w) a of
                     Inl e \<Rightarrow> (Inl e, wc)
                   | Inr True \<Rightarrow>
                       (case wrapProps (wrapObjToJson E n) (entries (snd (deref (store w) a)))
                               (plainObject []) wc of
                          (Inl e, wc') \<Rightarrow> (Inl e, wc')
                        | (Inr data, wc') \<Rightarrow> containerNodeV1 ''dict'' data wc')
                   | Inr False \<Rightarrow> (Inl (Error ''wrapObjToJson: Unknown type: object''), wc)))
         | _ \<Rightarrow> (Inl (Error ''wrapObjToJson: Unknown type: object''), wc))
      else
        (case specifierOf (store w) obj of
           Some sp \<Rightarrow>
             (let (guessClass, w1) = guessClassOfSpecifierV1 obj w;
                  a = (case obj of VRef a \<Rightarrow> a | _ \<Rightarrow> 0) in
              if guessClass = VUndefined then
                (case callSpecifier a sp w1 of
                   (Inl e, w2) \<Rightarrow> (Inl e, w2, c)
                 | (Inr evaluated, w2) \<Rightarrow> wrapObjToJson E n evaluated (w2, c))
              else if guessClass = VStr ''application'' then
                referenceNodeV1 E obj (\<lambda>ident.
                  [(''type'', VStr ''reference''), (''objId'', VNum ident),
                   (''plainRepr'', VNull), (''className'', VStr ''application'')]) (w1, c)
              else
                (case guessClass of
                   VStr cn \<Rightarrow>
                     if take 7 cn = ''array::'' then
                       referenceNodeV1 E obj (\<lambda>ident.
                         [(''type'', VStr ''reference''), (''objId'', VNum ident),
                          (''plainRepr'', VNull), (''className'', guessClass)]) (w1, c)
                     else
                       (case callSpecifier a sp w1 of
                          (Inl e, w2) \<Rightarrow> (Inl e, w2, c)
                        | (Inr evaluated, w2) \<Rightarrow>
                            referenceNodeV1 E obj (\<lambda>ident.
                              [(''type'', VStr ''reference''), (''objId'', VNum ident),
                               (''className'', guessClass),
                               (''plainRepr'',
                                if isPlainObj (store w2) evaluated then evaluated else VNull)])
                              (w2, c))
                 | _ \<Rightarrow> (Inl TypeError, w1, c)))
         | None \<Rightarrow>
             if typeof (store w) obj = ''function'' then
               referenceNodeV1 E obj (\<lambda>ident.
                 [(''type'', VStr ''reference''), (''objId'', VNum ident),
                  (''className'', VStr ''function'')]) wc
             else (Inl (Error (''Unknown type: '' @ typeof (store w) obj)), wc)))"

text \<open>\<open>jsonIOWrapper\<close>: no \<open>try\<close> at all.\<close>

definition jsonIOWrapper :: "engine \<Rightarrow> nat \<Rightarrow> operation \<Rightarrow> wire \<Rightarrow> world \<Rightarrow> (error + json option) \<times> world" where
  "jsonIOWrapper E depth func param_str w =
     (case param_str of
        NotJson \<Rightarrow> (Inl SyntaxError, w)
      | Text j \<Rightarrow>
          (let (param, h) = JSON_parse j (store w)
           in case func param (w\<lparr>store := h\<rparr>) of
                (Inl e, w1) \<Rightarrow> (Inl e, w1)
              | (Inr result, w1) \<Rightarrow> (JSON_stringify E depth [] (store w1) result, w1)))"

section \<open>A state and an engine for the examples\<close>

text \<open>
  The state when the script has been loaded: no object, a new pool. The engine of the
  examples answers \<open>NaN\<close>, the empty string and \<open>undefined\<close>, and takes no symbol as a key
  of a \<open>WeakMap\<close>.
\<close>

definition newCache :: cache where
  "newCache = \<lparr>generator = \<lparr>idCount = Fin 0, objIdMap = Map.empty\<rparr>, objectCacheMap = Map.empty\<rparr>"

definition newWorld :: world where
  "newWorld = \<lparr>store = [], objectPoolManager = newObjectPoolManager, hostCalls = [], console = []\<rparr>"

text \<open>
  A specifier whose \<open>class\<close> query fails with an error other than -1700, displayed as
  \<open>Application("Finder").windows[0].foo\<close>; the host would evaluate it to 7.
\<close>

definition sampleSpecifier :: specifier where
  "sampleSpecifier =
     \<lparr>classOf = Some ''item'', protoNames = [],
      classProperty = Some (Inl (AutomationError (- 1728))),
      selfCall = Inr (VNum (Fin 7)),
      displayString =
        ''Application('' @ [CHR 0x22] @ ''Finder'' @ [CHR 0x22] @ '').windows[0].foo''\<rparr>"

definition sampleEngine :: engine where
  "sampleEngine =
     \<lparr>numberOf = (\<lambda>h v. Inr NaN), toISOString = (\<lambda>r. []), specifierToJSON = (\<lambda>sp. Inr None),
      symbolsAsWeakMapKeys = False\<rparr>"

section \<open>Invariants of the pool\<close>

text \<open>
  The two maps are mutual inverses: an object is registered under a number exactly when
  that number, as a key, leads back to the object.
\<close>

definition mutualInverses :: "ObjectPoolManager \<Rightarrow> bool" where
  "mutualInverses pool =
     ((\<forall>obj c. objectIdMap pool obj = Some c \<longrightarrow> idObjectMap pool (VNum c) = Some obj) \<and>
      (\<forall>k obj. idObjectMap pool k = Some obj \<longrightarrow>
         (\<exists>c. k = VNum c \<and> objectIdMap pool obj = Some c)))"

text \<open>
  The counter is a whole number \<open>n\<close> up to \<open>2 ^ 53\<close>; as long as it is below \<open>2 ^ 53\<close>
  the maps are mutual inverses and the registered ids are the numbers of 1 to \<open>n\<close>, given
  to objects.
\<close>

definition poolInv :: "ObjectPoolManager \<Rightarrow> bool" where
  "poolInv pool =
     (\<exists>n. currentId pool = wholeNumber n \<and> n \<le> 2 ^ 53 \<and>
          (n < 2 ^ 53 \<longrightarrow>
             mutualInverses pool \<and>
             (\<forall>obj c. objectIdMap pool obj = Some c \<longrightarrow>
                isObject obj \<and> (\<exists>i. c = wholeNumber i \<and> 1 \<le> i \<and> i \<le> n))))"

definition idsBounded :: "ObjectPoolManager \<Rightarrow> bool" where
  "idsBounded pool =
     (\<exists>n. currentId pool = wholeNumber n \<and> n \<le> 2 ^ 53 \<and>
          (\<forall>k obj. idObjectMap pool k = Some obj \<longrightarrow> (\<exists>i. k = VNum (wholeNumber i) \<and> i \<le> n)))"

section \<open>What a decode and an encode may change\<close>

text \<open>
  A decode leaves the pool, the record of host calls and the console as they are, and
  removes no object.
\<close>

definition decodeFrame :: "world \<Rightarrow> world \<Rightarrow> bool" where
  "decodeFrame w w' =
     (objectPoolManager w' = objectPoolManager w \<and> hostCalls w' = hostCalls w \<and>
      console w' = console w \<and> length (store w) \<le> length (store w'))"

text \<open>
  An encode leaves the console and every object of the store as they are: it only adds
  objects. It changes the pool by calls of \<open>getId\<close> only, and the host calls it adds are
  no calls of a specifier itself.
\<close>

definition encodeFrame :: "world \<Rightarrow> world \<Rightarrow> bool" where
  "encodeFrame w w' =
     (console w' = console w \<and>
      (\<exists>new. store w' = store w @ new) \<and>
      (\<exists>objs. objectPoolManager w' = callsPool (map GetId objs) (objectPoolManager w)) \<and>
      (\<exists>cs. hostCalls w' = hostCalls w @ cs \<and> (\<forall>a. SelfCall a \<notin> set cs)))"

text \<open>
  An element of a container, given as its key, the address of the \<open>plain\<close> node that
  stands there and the \<open>data\<close> of that node: the entry before and after the decode.
\<close>

definition nodeEntry :: "string \<times> nat \<times> jsval \<Rightarrow> string \<times> jsval" where
  "nodeEntry t = (fst t, VRef (fst (snd t)))"

definition dataEntry :: "string \<times> nat \<times> jsval \<Rightarrow> string \<times> jsval" where
  "dataEntry t = (fst t, snd (snd t))"

text \<open>
  The indices among the keys of an array are below its length.
\<close>

definition indicesInRange :: "okind \<Rightarrow> string list \<Rightarrow> bool" where
  "indicesInRange kind ks =
     (case kind of
        KArray n \<Rightarrow> list_all (\<lambda>k. case indexOfKey k of None \<Rightarrow> True | Some i \<Rightarrow> i < n) ks
      | _ \<Rightarrow> True)"

text \<open>
  A node at address \<open>a\<close> of type \<open>array\<close> or \<open>dict\<close> whose \<open>data\<close> is the object at
  address \<open>d\<close>, of kind \<open>kind\<close>, which holds under distinct keys the \<open>plain\<close> nodes
  \<open>elems\<close>, objects other than the container.
\<close>

definition flatContainer ::
  "hobj list \<Rightarrow> nat \<Rightarrow> nat \<Rightarrow> okind \<Rightarrow> (string \<times> nat \<times> jsval) list \<Rightarrow> bool"
where
  "flatContainer h a d kind elems =
     (a \<noteq> d \<and> d < length h \<and>
      getProp h (VRef a) ''type'' \<in> {Inr (VStr ''array''), Inr (VStr ''dict'')} \<and>
      getProp h (VRef a) ''data'' = Inr (VRef d) \<and>
      deref h d = (kind, map nodeEntry elems) \<and>
      indicesInRange kind (map fst elems) \<and>
      distinct (map fst elems) \<and>
      list_all (\<lambda>t. fst (snd t) \<noteq> d \<and>
                    getProp h (VRef (fst (snd t))) ''type'' = Inr (VStr ''plain'') \<and>
                    getProp h (VRef (fst (snd t))) ''data'' = Inr (snd (snd t))) elems)"

text \<open>
  The entries of such a container while the loop of the decode runs: the keys in \<open>S\<close>
  hold the \<open>data\<close> already, the others still hold their node.
\<close>

definition partlyDecoded :: "string set \<Rightarrow> (string \<times> nat \<times> jsval) list \<Rightarrow> props" where
  "partlyDecoded S elems = map (\<lambda>t. if fst t \<in> S then dataEntry t else nodeEntry t) elems"

section \<open>Doubles\<close>

lemma roundHalfEven_of_int [simp]: "roundHalfEven (of_int k) = k"
  by (simp add: roundHalfEven_def)

lemma pow2_inverse: "pow2 k * pow2 (- k) = 1"
  by (simp add: pow2_def)

text \<open>A whole number below \<open>2 ^ 53\<close> is a double.\<close>

lemma toDouble_of_int:
  assumes "\<bar>t\<bar> < 2 ^ 53"
  shows "toDouble (of_int t) = Fin (of_int t)"
proof (cases "t = 0")
  case True
  then show ?thesis by (simp add: toDouble_def)
next
  case False
  define e where "e = bitlen \<bar>t\<bar> - 1"
  have pos: "0 < \<bar>t\<bar>" using False by simp
  have "1 \<le> \<bar>t\<bar>" using False by simp
  then have "(of_int 1 :: rat) \<le> of_int \<bar>t\<bar>" by (simp only: of_int_le_iff)
  then have one: "(1::rat) \<le> \<bar>of_int t\<bar>" by simp
  have fl: "\<lfloor>\<bar>of_int t :: rat\<bar>\<rfloor> = \<bar>t\<bar>" by (metis floor_of_int of_int_abs)
  have ex: "exponentOf \<bar>of_int t\<bar> = e" using one fl by (simp add: exponentOf_def e_def)
  have "bitlen \<bar>t\<bar> \<le> 53" using assms by (simp add: bitlen_le_iff_power)
  moreover have "1 \<le> bitlen \<bar>t\<bar>"
    using pos bitlen_eq_zero_iff [of "\<bar>t\<bar>"] bitlen_nonneg [of "\<bar>t\<bar>"] by linarith
  ultimately have e: "0 \<le> e" "e \<le> 52" by (simp_all add: e_def)
  then have mx: "max e (- 1022) = e" by simp
  have sc: "\<bar>of_int t :: rat\<bar> * pow2 (52 - e) = of_int (\<bar>t\<bar> * 2 ^ nat (52 - e))"
    using e by (simp add: pow2_def)
  have unscale: "(of_int (\<bar>t\<bar> * 2 ^ nat (52 - e)) :: rat) * pow2 (e - 52) = of_int \<bar>t\<bar>"
    using e pow2_inverse [of "52 - e"] by (simp add: pow2_def)
  have small: "\<not> (overflowBound \<le> (of_int \<bar>t\<bar> :: rat))"
  proof -
    have "(of_int \<bar>t\<bar> :: rat) < of_int (2 ^ 53)" using assms by (simp only: of_int_less_iff)
    also have "\<dots> = 2 ^ 53" by simp
    also have "\<dots> \<le> overflowBound"
      unfolding overflowBound_def by (rule power_increasing) simp_all
    finally show ?thesis by simp
  qed
  have sg: "sgn (of_int t :: rat) * of_int \<bar>t\<bar> = of_int t"
    by (simp add: sgn_if)
  have nz: "(of_int t :: rat) \<noteq> 0" using False by simp
  show ?thesis
    unfolding toDouble_def Let_def ex mx sc roundHalfEven_of_int unscale
    using nz small sg by (simp only: if_False)
qed

lemma toDouble_numeral [simp]:
  "numeral k < (2 :: int) ^ 53 \<Longrightarrow> toDouble (numeral k) = Fin (numeral k)"
  using toDouble_of_int [of "numeral k"] by simp

lemma toDouble_one [simp]: "toDouble 1 = Fin 1"
  using toDouble_of_int [of 1] by simp

text \<open>
  \<open>2 ^ 53\<close> is a double, and \<open>2 ^ 53 + 1\<close>, halfway between two doubles, is rounded to
  it.
\<close>

lemma not_overflow_2_53: "\<not> overflowBound \<le> 9007199254740992"
proof -
  have "(9007199254740992 :: rat) = 2 ^ 53" by simp
  also have "\<dots> < 2 ^ 1024" by (rule power_strict_increasing) simp_all
  finally show ?thesis by (simp add: overflowBound_def)
qed

lemma bitlen_2_53: "bitlen 9007199254740992 = 54" "bitlen 9007199254740993 = 54"
  using bitlen_twopow_add_eq [of 0 53] bitlen_twopow_add_eq [of 1 53] by simp_all

lemma toDouble_2_53: "toDouble 9007199254740992 = Fin 9007199254740992"
  by (simp add: toDouble_def exponentOf_def roundHalfEven_def pow2_def Let_def bitlen_2_53
      not_overflow_2_53)

lemma floor_half_2_53: "\<lfloor>9007199254740993 / 2 :: rat\<rfloor> = 4503599627370496"
  by (rule floor_unique) simp_all

lemma toDouble_2_53_plus_1: "toDouble 9007199254740993 = Fin 9007199254740992"
  by (simp add: toDouble_def exponentOf_def roundHalfEven_def pow2_def Let_def bitlen_2_53
      not_overflow_2_53 floor_half_2_53)

lemma toDouble_of_nat:
  assumes "n \<le> 2 ^ 53"
  shows "toDouble (of_nat n) = Fin (of_nat n)"
proof (cases "n = 2 ^ 53")
  case True
  then have "(of_nat n :: rat) = 9007199254740992" by simp
  then show ?thesis using toDouble_2_53 by simp
next
  case False
  then have "n < 2 ^ 53" using assms by simp
  then have "\<bar>int n\<bar> < 2 ^ 53" by (simp add: of_nat_less_iff [of n "2 ^ 53", where ?'a = int, simplified])
  then show ?thesis using toDouble_of_int [of "int n"] by simp
qed

lemma wholeNumber_inj [simp]: "wholeNumber a = wholeNumber b \<longleftrightarrow> a = b"
  by (simp add: wholeNumber_def)

lemma plusOne_wholeNumber:
  assumes "n < 2 ^ 53"
  shows "plusOne (wholeNumber n) = wholeNumber (Suc n)"
proof -
  have "Suc n \<le> 2 ^ 53" using assms by simp
  then have "toDouble (of_nat (Suc n)) = Fin (of_nat (Suc n))" by (rule toDouble_of_nat)
  then show ?thesis by (simp add: wholeNumber_def add.commute)
qed

lemma plusOne_stuck: "plusOne (wholeNumber (2 ^ 53)) = wholeNumber (2 ^ 53)"
  using toDouble_2_53_plus_1 by (simp add: wholeNumber_def)

lemma plusOne_counter:
  assumes "n \<le> 2 ^ 53"
  shows "\<exists>m. plusOne (wholeNumber n) = wholeNumber m \<and> n \<le> m \<and> m \<le> 2 ^ 53"
proof (cases "n = 2 ^ 53")
  case True
  then show ?thesis using plusOne_stuck by auto
next
  case False
  then have "n < 2 ^ 53" using assms by simp
  then show ?thesis using plusOne_wholeNumber [of n] by (intro exI [of _ "Suc n"]) simp
qed

section \<open>The pool: identifiers, release, invariant\<close>

lemma poolInv_new: "poolInv newObjectPoolManager"
proof -
  have "currentId newObjectPoolManager = wholeNumber 0"
    by (simp add: newObjectPoolManager_def wholeNumber_def)
  moreover have "mutualInverses newObjectPoolManager"
    by (simp add: mutualInverses_def newObjectPoolManager_def)
  moreover have "\<forall>obj c. objectIdMap newObjectPoolManager obj \<noteq> Some c"
    by (simp add: newObjectPoolManager_def)
  ultimately show ?thesis unfolding poolInv_def by (intro exI [of _ 0]) simp
qed

lemma poolInv_getId:
  assumes "poolInv pool" and "isObject obj"
  shows "poolInv (snd (getId pool obj))"
proof (cases "objectIdMap pool obj = None")
  case False
  then show ?thesis using assms by (auto simp: getId_def)
next
  case True
  obtain n where n: "currentId pool = wholeNumber n" "n \<le> 2 ^ 53"
    and good: "n < 2 ^ 53 \<Longrightarrow> mutualInverses pool \<and>
             (\<forall>obj c. objectIdMap pool obj = Some c \<longrightarrow>
                isObject obj \<and> (\<exists>i. c = wholeNumber i \<and> 1 \<le> i \<and> i \<le> n))"
    using assms(1) unfolding poolInv_def by blast
  let ?p = "snd (getId pool obj)"
  show ?thesis
  proof (cases "n < 2 ^ 53")
    case False
    then have "n = 2 ^ 53" using n(2) by simp
    then have "currentId ?p = wholeNumber (2 ^ 53)"
      using True n(1) plusOne_stuck by (simp add: getId_def Let_def)
    then show ?thesis unfolding poolInv_def by (intro exI [of _ "2 ^ 53"]) simp
  next
    case below: True
    have c: "plusOne (currentId pool) = wholeNumber (Suc n)"
      using n(1) plusOne_wholeNumber [OF below] by simp
    have cur: "currentId ?p = wholeNumber (Suc n)"
      using True c by (simp add: getId_def Let_def)
    have om: "objectIdMap ?p = (objectIdMap pool)(obj \<mapsto> wholeNumber (Suc n))"
      using True c by (simp add: getId_def Let_def)
    have im: "idObjectMap ?p = (idObjectMap pool)(VNum (wholeNumber (Suc n)) \<mapsto> obj)"
      using True c by (simp add: getId_def Let_def)
    note g = good [OF below]
    have inv: "mutualInverses pool" using g by simp
    have ids: "\<And>x c. objectIdMap pool x = Some c \<Longrightarrow>
        isObject x \<and> (\<exists>i. c = wholeNumber i \<and> 1 \<le> i \<and> i \<le> n)"
      using g by blast
    have fresh: "idObjectMap pool (VNum (wholeNumber (Suc n))) = None"
    proof (rule ccontr)
      assume "idObjectMap pool (VNum (wholeNumber (Suc n))) \<noteq> None"
      then obtain x where "idObjectMap pool (VNum (wholeNumber (Suc n))) = Some x" by auto
      with inv obtain c' where "VNum (wholeNumber (Suc n)) = VNum c'" "objectIdMap pool x = Some c'"
        unfolding mutualInverses_def by blast
      then have "objectIdMap pool x = Some (wholeNumber (Suc n))" by simp
      with ids obtain i where "wholeNumber (Suc n) = wholeNumber i" "i \<le> n" by blast
      then show False by simp
    qed
    have unused: "\<And>x. objectIdMap pool x \<noteq> Some (wholeNumber (Suc n))"
    proof
      fix x assume "objectIdMap pool x = Some (wholeNumber (Suc n))"
      with ids obtain i where "wholeNumber (Suc n) = wholeNumber i" "i \<le> n" by blast
      then show False by simp
    qed
    have inv': "mutualInverses ?p"
      unfolding mutualInverses_def om im
    proof (intro conjI allI impI)
      fix x c' assume a: "((objectIdMap pool)(obj \<mapsto> wholeNumber (Suc n))) x = Some c'"
      show "((idObjectMap pool)(VNum (wholeNumber (Suc n)) \<mapsto> obj)) (VNum c') = Some x"
      proof (cases "x = obj")
        case True
        then show ?thesis using a by simp
      next
        case False
        then have x: "objectIdMap pool x = Some c'" using a by simp
        then have "c' \<noteq> wholeNumber (Suc n)" using unused by blast
        moreover have "idObjectMap pool (VNum c') = Some x"
          using inv x unfolding mutualInverses_def by blast
        ultimately show ?thesis by simp
      qed
    next
      fix k x assume a: "((idObjectMap pool)(VNum (wholeNumber (Suc n)) \<mapsto> obj)) k = Some x"
      show "\<exists>c'. k = VNum c' \<and> ((objectIdMap pool)(obj \<mapsto> wholeNumber (Suc n))) x = Some c'"
      proof (cases "k = VNum (wholeNumber (Suc n))")
        case True
        then show ?thesis using a by simp
      next
        case False
        then have "idObjectMap pool k = Some x" using a by simp
        then obtain c' where c': "k = VNum c'" "objectIdMap pool x = Some c'"
          using inv unfolding mutualInverses_def by blast
        then have "x \<noteq> obj" using True by auto
        then show ?thesis using c' by simp
      qed
    qed
    have ids': "\<forall>x c'. objectIdMap ?p x = Some c' \<longrightarrow>
        isObject x \<and> (\<exists>i. c' = wholeNumber i \<and> 1 \<le> i \<and> i \<le> Suc n)"
      unfolding om
    proof (intro allI impI)
      fix x c' assume a: "((objectIdMap pool)(obj \<mapsto> wholeNumber (Suc n))) x = Some c'"
      show "isObject x \<and> (\<exists>i. c' = wholeNumber i \<and> 1 \<le> i \<and> i \<le> Suc n)"
      proof (cases "x = obj")
        case True
        then have "c' = wholeNumber (Suc n)" using a by simp
        then show ?thesis using True assms(2) by auto
      next
        case False
        then have "objectIdMap pool x = Some c'" using a by simp
        with ids obtain i where "isObject x" "c' = wholeNumber i" "1 \<le> i" "i \<le> n" by blast
        then show ?thesis by auto
      qed
    qed
    have "Suc n \<le> 2 ^ 53" using below by simp
    then show ?thesis unfolding poolInv_def using cur inv' ids'
      by (intro exI [of _ "Suc n"]) simp
  qed
qed

lemma poolInv_release:
  assumes "poolInv pool"
  shows "poolInv (releaseObjectWithId pool ident)"
proof -
  obtain n where n: "currentId pool = wholeNumber n" "n \<le> 2 ^ 53"
    and good: "n < 2 ^ 53 \<Longrightarrow> mutualInverses pool \<and>
             (\<forall>obj c. objectIdMap pool obj = Some c \<longrightarrow>
                isObject obj \<and> (\<exists>i. c = wholeNumber i \<and> 1 \<le> i \<and> i \<le> n))"
    using assms unfolding poolInv_def by blast
  let ?p = "releaseObjectWithId pool ident"
  have cur: "currentId ?p = wholeNumber n"
    using n(1) by (simp add: releaseObjectWithId_def Let_def)
  have "mutualInverses ?p \<and>
        (\<forall>obj c. objectIdMap ?p obj = Some c \<longrightarrow>
           isObject obj \<and> (\<exists>i. c = wholeNumber i \<and> 1 \<le> i \<and> i \<le> n))"
    if below: "n < 2 ^ 53"
  proof -
    note g = good [OF below]
    have inv: "mutualInverses pool" using g by simp
    have ids: "\<And>x c. objectIdMap pool x = Some c \<Longrightarrow>
        isObject x \<and> (\<exists>i. c = wholeNumber i \<and> 1 \<le> i \<and> i \<le> n)"
      using g by blast
    show ?thesis
    proof (cases "idObjectMap pool ident")
      case None
      have "objectIdMap pool VUndefined = None"
      proof (cases "objectIdMap pool VUndefined")
        case (Some c)
        then have "isObject VUndefined" using ids by blast
        then show ?thesis by (simp add: isObject_def)
      qed simp
      then have "(objectIdMap pool)(VUndefined := None) = objectIdMap pool" by auto
      moreover have "(idObjectMap pool)(ident := None) = idObjectMap pool" using None by auto
      ultimately have "?p = pool"
        using None by (simp add: releaseObjectWithId_def getObject_def)
      then show ?thesis using g by simp
    next
      case (Some obj)
      then obtain c where c: "ident = VNum c" "objectIdMap pool obj = Some c"
        using inv unfolding mutualInverses_def by blast
      have om: "objectIdMap ?p = (objectIdMap pool)(obj := None)"
        using Some by (simp add: releaseObjectWithId_def getObject_def Let_def)
      have im: "idObjectMap ?p = (idObjectMap pool)(ident := None)"
        using Some by (simp add: releaseObjectWithId_def getObject_def Let_def)
      have inv': "mutualInverses ?p"
        unfolding mutualInverses_def om im
      proof (intro conjI allI impI)
        fix x c' assume a: "((objectIdMap pool)(obj := None)) x = Some c'"
        then have x: "x \<noteq> obj" "objectIdMap pool x = Some c'" by (auto split: if_splits)
        then have found: "idObjectMap pool (VNum c') = Some x"
          using inv unfolding mutualInverses_def by blast
        have "VNum c' \<noteq> ident" using found Some x(1) by auto
        then show "((idObjectMap pool)(ident := None)) (VNum c') = Some x" using found by simp
      next
        fix k x assume a: "((idObjectMap pool)(ident := None)) k = Some x"
        then have k: "k \<noteq> ident" "idObjectMap pool k = Some x" by (auto split: if_splits)
        then obtain c' where c': "k = VNum c'" "objectIdMap pool x = Some c'"
          using inv unfolding mutualInverses_def by blast
        have "x \<noteq> obj"
        proof
          assume "x = obj"
          then have "c' = c" using c' c by simp
          then show False using k(1) c'(1) c(1) by simp
        qed
        then show "\<exists>c'. k = VNum c' \<and> ((objectIdMap pool)(obj := None)) x = Some c'"
          using c' by simp
      qed
      have "\<forall>x c'. objectIdMap ?p x = Some c' \<longrightarrow>
           isObject x \<and> (\<exists>i. c' = wholeNumber i \<and> 1 \<le> i \<and> i \<le> n)"
        unfolding om using ids by (auto split: if_splits)
      with inv' show ?thesis by simp
    qed
  qed
  then show ?thesis unfolding poolInv_def using cur n(2) by (intro exI [of _ n]) simp
qed

lemma callsPool_append: "callsPool (cs1 @ cs2) pool = callsPool cs2 (callsPool cs1 pool)"
  by (induction cs1 arbitrary: pool) auto

lemma poolInv_callsPool:
  "poolInv pool \<Longrightarrow> \<forall>c\<in>set cs. objectArgs c \<Longrightarrow> poolInv (callsPool cs pool)"
proof (induction cs arbitrary: pool)
  case Nil
  then show ?case by simp
next
  case (Cons c cs)
  have "poolInv (callPool c pool)"
  proof (cases c)
    case (GetId obj)
    then show ?thesis using Cons.prems by (simp add: poolInv_getId)
  next
    case (GetObject x)
    then show ?thesis using Cons.prems by simp
  next
    case (ReleaseObjectWithId x)
    then show ?thesis using Cons.prems by (simp add: poolInv_release)
  qed
  then show ?case using Cons by simp
qed

text \<open>
  Whatever the arguments: the counter is a whole number up to \<open>2 ^ 53\<close> that no call
  lowers, and every key of \<open>idObjectMap\<close> is a whole number up to the counter.
\<close>

lemma idsBounded_new: "idsBounded newObjectPoolManager"
  unfolding idsBounded_def
  by (intro exI [of _ 0]) (simp add: newObjectPoolManager_def wholeNumber_def)

lemma idsBounded_callPool:
  assumes "idsBounded pool" and "currentId pool = wholeNumber n"
  shows "idsBounded (callPool c pool) \<and>
         (\<exists>m. currentId (callPool c pool) = wholeNumber m \<and> n \<le> m)"
proof -
  have n: "n \<le> 2 ^ 53"
    and keys: "\<And>k obj. idObjectMap pool k = Some obj \<Longrightarrow> \<exists>i. k = VNum (wholeNumber i) \<and> i \<le> n"
    using assms unfolding idsBounded_def by auto
  show ?thesis
  proof (cases c)
    case (GetObject x)
    then show ?thesis using assms by auto
  next
    case (ReleaseObjectWithId x)
    have cur: "currentId (callPool c pool) = wholeNumber n"
      using assms(2) ReleaseObjectWithId by (simp add: releaseObjectWithId_def Let_def)
    have "\<And>k obj. idObjectMap (callPool c pool) k = Some obj \<Longrightarrow> idObjectMap pool k = Some obj"
      using ReleaseObjectWithId by (auto simp: releaseObjectWithId_def Let_def split: if_splits)
    then have "\<forall>k obj. idObjectMap (callPool c pool) k = Some obj \<longrightarrow>
        (\<exists>i. k = VNum (wholeNumber i) \<and> i \<le> n)"
      using keys by blast
    then have "idsBounded (callPool c pool)"
      unfolding idsBounded_def using cur n by blast
    then show ?thesis using cur by blast
  next
    case (GetId obj)
    show ?thesis
    proof (cases "objectIdMap pool obj = None")
      case False
      then have "callPool c pool = pool" using GetId by (auto simp: getId_def)
      then show ?thesis using assms by auto
    next
      case True
      obtain m where m: "plusOne (wholeNumber n) = wholeNumber m" "n \<le> m" "m \<le> 2 ^ 53"
        using plusOne_counter [OF n] by blast
      have cur: "currentId (callPool c pool) = wholeNumber m"
        using GetId True assms(2) m(1) by (simp add: getId_def Let_def)
      have im: "idObjectMap (callPool c pool) = (idObjectMap pool)(VNum (wholeNumber m) \<mapsto> obj)"
        using GetId True assms(2) m(1) by (simp add: getId_def Let_def)
      have "\<exists>i. k = VNum (wholeNumber i) \<and> i \<le> m"
        if "idObjectMap (callPool c pool) k = Some x" for k x
      proof (cases "k = VNum (wholeNumber m)")
        case True
        then show ?thesis by auto
      next
        case False
        then have "idObjectMap pool k = Some x" using that im by simp
        then obtain i where "k = VNum (wholeNumber i)" "i \<le> n" using keys by blast
        then show ?thesis using m(2) by (intro exI [of _ i]) simp
      qed
      then have "\<forall>k x. idObjectMap (callPool c pool) k = Some x \<longrightarrow>
          (\<exists>i. k = VNum (wholeNumber i) \<and> i \<le> m)"
        by blast
      then have "idsBounded (callPool c pool)"
        unfolding idsBounded_def using cur m(3) by blast
      then show ?thesis using cur m(2) by blast
    qed
  qed
qed

lemma idsBounded_callsPool:
  "idsBounded pool \<Longrightarrow> currentId pool = wholeNumber n \<Longrightarrow>
     idsBounded (callsPool cs pool) \<and>
     (\<exists>m. currentId (callsPool cs pool) = wholeNumber m \<and> n \<le> m)"
proof (induction cs arbitrary: pool n)
  case Nil
  then show ?case by auto
next
  case (Cons c cs)
  obtain m where m: "idsBounded (callPool c pool)" "currentId (callPool c pool) = wholeNumber m"
    "n \<le> m"
    using idsBounded_callPool [OF Cons.prems] by blast
  obtain m' where "idsBounded (callsPool cs (callPool c pool))"
    "currentId (callsPool cs (callPool c pool)) = wholeNumber m'" "m \<le> m'"
    using Cons.IH [OF m(1,2)] by blast
  then show ?case using m(3) by (auto intro: order_trans)
qed

lemma reached_counter:
  "\<exists>n. currentId (callsPool cs newObjectPoolManager) = wholeNumber n \<and> n \<le> 2 ^ 53"
  using idsBounded_callsPool [OF idsBounded_new, of 0 cs]
  by (auto simp: idsBounded_def newObjectPoolManager_def wholeNumber_def)

lemma getId_fresh:
  "objectIdMap pool obj = None \<Longrightarrow> currentId pool = wholeNumber n \<Longrightarrow> n < 2 ^ 53 \<Longrightarrow>
     getId pool obj =
       (wholeNumber (Suc n),
        pool\<lparr>currentId := wholeNumber (Suc n),
             objectIdMap := (objectIdMap pool)(obj \<mapsto> wholeNumber (Suc n)),
             idObjectMap := (idObjectMap pool)(VNum (wholeNumber (Suc n)) \<mapsto> obj)\<rparr>)"
  using plusOne_wholeNumber [of n] by (simp add: getId_def Let_def)

lemma fresh_not_used:
  assumes "idsBounded q" and "currentId q = wholeNumber m" and "m \<le> n"
  shows "VNum (wholeNumber (Suc n)) \<notin> dom (idObjectMap q)"
proof
  assume "VNum (wholeNumber (Suc n)) \<in> dom (idObjectMap q)"
  then obtain x where "idObjectMap q (VNum (wholeNumber (Suc n))) = Some x" by auto
  with assms(1,2) obtain i where "VNum (wholeNumber (Suc n)) = VNum (wholeNumber i)" "i \<le> m"
    unfolding idsBounded_def by (metis wholeNumber_inj)
  with assms(3) show False by simp
qed

text \<open>
  At \<open>2 ^ 53\<close> the counter stops: \<open>getId\<close> returns \<open>2 ^ 53\<close> again for the next new
  object and stores it under the key that the object before it has.
\<close>

lemma getId_at_2_53:
  assumes "currentId pool = wholeNumber (2 ^ 53)" and "objectIdMap pool obj = None"
  shows "getId pool obj =
           (wholeNumber (2 ^ 53),
            pool\<lparr>objectIdMap := (objectIdMap pool)(obj \<mapsto> wholeNumber (2 ^ 53)),
                 idObjectMap := (idObjectMap pool)(VNum (wholeNumber (2 ^ 53)) \<mapsto> obj)\<rparr>)"
  using assms plusOne_stuck by (simp add: getId_def Let_def)

text \<open>
  C1 (handle stability). The code breaks it: for an object that is already registered,
  \<open>getId\<close> returns the counter, which is the id of the object registered last. Three
  calls on a new pool, for the objects at addresses 1, 2 and 1 again, return 1, 2 and 2:
  the first object gets two different ids, and the two objects share the id 2.
\<close>

theorem getId_known_object_returns_counter:
  "(let (a, p1) = getId newObjectPoolManager (VRef 1);
        (b, p2) = getId p1 (VRef 2);
        (c, p3) = getId p2 (VRef 1)
    in (a, b, c)) = (Fin 1, Fin 2, Fin 2)"
  by (simp add: getId_def newObjectPoolManager_def Let_def)

text \<open>
  In general: for an object that is registered, \<open>getId\<close> returns the counter and not
  the id the object is registered under.
\<close>

lemma getId_registered:
  "objectIdMap pool obj = Some c \<Longrightarrow> getId pool obj = (currentId pool, pool)"
  by (simp add: getId_def)

text \<open>
  The id generator of the first version does what \<open>getId\<close> misses: it returns the id
  stored for the object, so a second call gives the same id whatever was registered in
  between.
\<close>

lemma getObjectId_known:
  "isObject obj \<Longrightarrow> objIdMap g obj = Some c \<Longrightarrow> getObjectId E g obj = (Inr c, g)"
  by (cases obj) (simp_all add: getObjectId_def canBeHeldWeakly_def isObject_def)

lemma getObjectId_registers:
  "isObject obj \<Longrightarrow> getObjectId E g obj = (r, g') \<Longrightarrow> \<exists>c. r = Inr c \<and> objIdMap g' obj = Some c"
  by (cases obj)
    (auto simp: getObjectId_def canBeHeldWeakly_def isObject_def Let_def split: option.splits)

lemma getObjectId_keeps:
  "objIdMap g obj = Some c \<Longrightarrow> getObjectId E g other = (r, g') \<Longrightarrow> objIdMap g' obj = Some c"
  by (auto simp: getObjectId_def Let_def split: option.splits if_splits)



text \<open>
  C6 (pool state invariant). Take any calls \<open>cs1\<close> and then \<open>cs2\<close> on a new pool, \<open>getId\<close>
  being called with objects, that leave the counter at a whole number \<open>c\<close> below
  \<open>2 ^ 53\<close>. In the pool reached the two maps are mutual inverses; the counter after
  \<open>cs1\<close> was a whole number not above \<open>c\<close>; and the id that \<open>getId\<close> gives to an object
  not yet registered is \<open>c + 1\<close>, above every earlier counter, and was no key of the pool
  after \<open>cs1\<close>, whatever was released since.
\<close>

theorem pool_state_invariant:
  assumes "\<forall>c\<in>set (cs1 @ cs2). objectArgs c"
    and "currentId (callsPool (cs1 @ cs2) newObjectPoolManager) = wholeNumber c"
    and "c < 2 ^ 53"
  shows "let q = callsPool cs1 newObjectPoolManager; p = callsPool cs2 q in
     mutualInverses p \<and> (\<exists>cq. currentId q = wholeNumber cq \<and> cq \<le> c) \<and>
     (\<forall>obj. objectIdMap p obj = None \<longrightarrow>
         fst (getId p obj) = wholeNumber (c + 1) \<and>
         VNum (fst (getId p obj)) \<notin> dom (idObjectMap q))"
proof -
  define q where "q = callsPool cs1 newObjectPoolManager"
  define p where "p = callsPool cs2 q"
  have p: "p = callsPool (cs1 @ cs2) newObjectPoolManager"
    by (simp add: p_def q_def callsPool_append)
  have cp: "currentId p = wholeNumber c" using assms(2) p by simp
  have "poolInv p" unfolding p using assms(1) poolInv_new by (rule poolInv_callsPool [rotated])
  then obtain n where "currentId p = wholeNumber n" "n < 2 ^ 53 \<longrightarrow> mutualInverses p"
    unfolding poolInv_def by blast
  then have inv: "mutualInverses p" using cp assms(3) by simp
  obtain cq where cq: "currentId q = wholeNumber cq" "idsBounded q"
    using idsBounded_callsPool [OF idsBounded_new, of 0 cs1]
    by (auto simp: q_def newObjectPoolManager_def wholeNumber_def)
  obtain m where m: "currentId p = wholeNumber m" "cq \<le> m"
    using idsBounded_callsPool [OF cq(2,1), of cs2] unfolding p_def by blast
  have mono: "cq \<le> c" using m cp by simp
  have fresh: "fst (getId p obj) = wholeNumber (c + 1) \<and>
      VNum (fst (getId p obj)) \<notin> dom (idObjectMap q)"
    if "objectIdMap p obj = None" for obj
    using getId_fresh [OF that cp assms(3)] fresh_not_used [OF cq(2,1) mono] by simp
  have earlier: "\<exists>cq. currentId q = wholeNumber cq \<and> cq \<le> c"
    using cq(1) mono by blast
  show ?thesis
    using inv earlier fresh unfolding q_def [symmetric] p_def [symmetric] Let_def by blast
qed

theorem pool_state_invariant_witness:
  "let cs1 = [GetId (VRef 7), GetId (VRef 8)];
       cs2 = [ReleaseObjectWithId (VNum (Fin 1)), GetObject (VNum (Fin 1))];
       q = callsPool cs1 newObjectPoolManager; p = callsPool cs2 q in
     (\<forall>c\<in>set (cs1 @ cs2). objectArgs c) \<and> currentId p = wholeNumber 2 \<and> (2 :: nat) < 2 ^ 53 \<and>
     mutualInverses p \<and> currentId q = Fin 2 \<and>
     objectIdMap p (VRef 7) = None \<and> fst (getId p (VRef 7)) = Fin 3 \<and>
     VNum (Fin 3) \<notin> dom (idObjectMap q)"
  using pool_state_invariant [of "[GetId (VRef 7), GetId (VRef 8)]"
      "[ReleaseObjectWithId (VNum (Fin 1)), GetObject (VNum (Fin 1))]" 2]
  by (simp add: Let_def isObject_def getId_def releaseObjectWithId_def getObject_def
      newObjectPoolManager_def wholeNumber_def)

text \<open>
  The bound is needed. With the counter at \<open>2 ^ 53\<close>, \<open>getId\<close> gives a second new
  object the id \<open>2 ^ 53\<close> that the first one has, and takes the key from it: the maps are
  no mutual inverses any more.
\<close>

lemma counter_stops_at_2_53:
  "(let pool = newObjectPoolManager\<lparr>currentId := wholeNumber (2 ^ 53 - 1)\<rparr>;
        (a, p1) = getId pool (VRef 1);
        (b, p2) = getId p1 (VRef 2)
    in a = wholeNumber (2 ^ 53) \<and> b = wholeNumber (2 ^ 53) \<and>
       idObjectMap p2 (VNum (wholeNumber (2 ^ 53))) = Some (VRef 2) \<and>
       objectIdMap p2 (VRef 1) = Some (wholeNumber (2 ^ 53)) \<and> \<not> mutualInverses p2)"
proof -
  have a: "plusOne (wholeNumber (2 ^ 53 - 1)) = wholeNumber (2 ^ 53)"
    using plusOne_wholeNumber [of "2 ^ 53 - 1"] by simp
  show ?thesis
    using a plusOne_stuck
    by (auto simp: getId_def newObjectPoolManager_def Let_def mutualInverses_def)
qed

text \<open>
  The invariant is one of pools that register objects. The methods do not test their
  arguments: were \<open>getId\<close> called with \<open>undefined\<close>, the release of an id that is not
  held would remove \<open>undefined\<close> from \<open>objectIdMap\<close> (it is what \<open>getObject\<close> returns then)
  and leave its id in \<open>idObjectMap\<close>. No caller in the source passes anything but a
  specifier or a function.
\<close>

lemma getId_undefined_then_release:
  "\<not> mutualInverses
       (callsPool [GetId VUndefined, ReleaseObjectWithId (VNum (Fin 5))] newObjectPoolManager)"
  by (simp add: mutualInverses_def getId_def releaseObjectWithId_def getObject_def
      newObjectPoolManager_def Let_def)

section \<open>Keys of the examples\<close>

lemma indexOfKey_names [simp]:
  "indexOfKey ''type'' = None" "indexOfKey ''data'' = None" "indexOfKey ''objId'' = None"
  "indexOfKey ''id'' = None" "indexOfKey ''app'' = None" "indexOfKey ''className'' = None"
  "indexOfKey ''constructor'' = None" "indexOfKey ''name'' = None"
  by (simp_all add: indexOfKey_def digits.simps Let_def)

lemma indexOfKey_small [simp]:
  "indexOfKey ''0'' = Some 0" "indexOfKey ''1'' = Some 1" "indexOfKey ''2'' = Some 2"
  by (simp_all add: indexOfKey_def digits.simps Let_def)

lemma digits_small [simp]:
  "digits 0 = ''0''" "digits 1 = ''1''" "digits 2 = ''2''"
  "digits (Suc 0) = ''1''" "digits (Suc (Suc 0)) = ''2''"
  by (simp_all add: digits.simps)

lemmas evaluation =
  strIOFuncWrapper_def newWorld_def newObjectPoolManager_def alloc_def plainObject_def
  getProp_def setProp_def assign_def forInKeys_def ownKeys_def entries_def valueAt_def
  deref_def getObject_def echoInner_def releaseObjectWithIdInner_def isJsonNode_def typeof_def
  specifierOf_def constructorIsObject_def List.map_filter_simps eval_nat_numeral Let_def

section \<open>Decoding a stale handle\<close>

text \<open>
  C2 (stale-handle decoding), as stated: it fails on the code. There is no not-found
  outcome: for the id 99, which a new pool does not hold, \<open>getObject\<close> returns \<open>undefined\<close>,
  and decoding the reference node returns normally with \<open>undefined\<close>, the very result of
  decoding a \<open>plain\<close> node that has no \<open>data\<close>. At the boundary the stale handle is
  \<open>null\<close>: \<open>echo\<close> answers the stale reference with the text it answers a plain \<open>null\<close>
  with.
\<close>

theorem stale_handle_masked_as_null:
  "(let w = newWorld\<lparr>store := [plainObject [(''type'', VStr ''reference''), (''objId'', VNum (Fin 99))],
                                 plainObject [(''type'', VStr ''plain'')]]\<rparr>
    in idObjectMap (objectPoolManager w) (VNum (Fin 99)) = None \<and>
       getObject (objectPoolManager w) (VNum (Fin 99)) = VUndefined \<and>
       unwrapFromJson sampleEngine 1 (VRef 0) w = (Inr VUndefined, w) \<and>
       unwrapFromJson sampleEngine 1 (VRef 1) w = (Inr VUndefined, w)) \<and>
   fst (strIOFuncWrapper sampleEngine 3 echoInner
          (Text (JObj [(''type'', JStr ''reference''), (''objId'', JNum 99)])) newWorld)
     = Inr (Some (JObj [(''type'', JStr ''plain''), (''data'', JNull)])) \<and>
   fst (strIOFuncWrapper sampleEngine 3 echoInner
          (Text (JObj [(''type'', JStr ''plain''), (''data'', JNull)])) newWorld)
     = Inr (Some (JObj [(''type'', JStr ''plain''), (''data'', JNull)]))"
  by (simp add: evaluation)

text \<open>
  C2, amended: for every id that the pool does not hold, \<open>getObject\<close> returns
  \<open>undefined\<close>, and decoding a reference node that carries the id returns \<open>undefined\<close>
  without an error and without a change of the state.
\<close>

theorem stale_handle_is_undefined:
  assumes "idObjectMap (objectPoolManager w) ident = None"
    and "getProp (store w) obj ''type'' = Inr (VStr ''reference'')"
    and "getProp (store w) obj ''objId'' = Inr ident"
  shows "getObject (objectPoolManager w) ident = VUndefined \<and>
         unwrapFromJson E (Suc n) obj w = (Inr VUndefined, w)"
  using assms by (simp add: getObject_def)

theorem stale_handle_is_undefined_witness:
  "(let w = newWorld\<lparr>store := [plainObject [(''type'', VStr ''reference''), (''objId'', VNum (Fin 99))]]\<rparr>
    in idObjectMap (objectPoolManager w) (VNum (Fin 99)) = None \<and>
       getProp (store w) (VRef 0) ''type'' = Inr (VStr ''reference'') \<and>
       getProp (store w) (VRef 0) ''objId'' = Inr (VNum (Fin 99)) \<and>
       getObject (objectPoolManager w) (VNum (Fin 99)) = VUndefined \<and>
       unwrapFromJson sampleEngine (Suc 0) (VRef 0) w = (Inr VUndefined, w))"
  using stale_handle_is_undefined [of "newWorld\<lparr>store := [plainObject [(''type'', VStr ''reference''), (''objId'', VNum (Fin 99))]]\<rparr>"
      "VNum (Fin 99)" "VRef 0" sampleEngine 0]
  by (simp add: newWorld_def newObjectPoolManager_def getProp_def valueAt_def deref_def
      plainObject_def Let_def)

section \<open>The wrapped function\<close>

text \<open>
  C3 (host-failure recovery), as stated: it fails on the code. \<open>_releaseObjectWithId\<close>
  raises a TypeError on the parameters \<open>null\<close> (the pattern \<open>{id}\<close> reads a property of
  \<open>null\<close>), and the wrapped function ends with that TypeError: no response is returned.
\<close>

theorem host_failure_leaves_the_wrapper:
  "releaseObjectWithIdInner VNull newWorld = (Inl TypeError, newWorld) \<and>
   strIOFuncWrapper sampleEngine 3 releaseObjectWithIdInner
      (Text (JObj [(''type'', JStr ''plain''), (''data'', JNull)])) newWorld
     = (Inl TypeError,
        newWorld\<lparr>store := [plainObject [(''type'', VStr ''plain''), (''data'', VNull)]]\<rparr>)"
  by (simp add: evaluation)

text \<open>
  C3, amended: \<open>func(params)\<close> stands outside of every \<open>try\<close>. Whenever the operation
  raises an error on the parameters it is given (the decoded ones, or the parsed ones when
  the decoding failed), the wrapped function raises that same error and leaves the state
  as the operation left it.
\<close>

theorem host_failure_propagates:
  assumes "JSON_parse j (store w) = (params, h)"
    and "unwrapFromJson E depth params (w\<lparr>store := h\<rparr>) = (r, w1)"
    and "(case r of
            Inr v \<Rightarrow> func v w1
          | Inl e \<Rightarrow> func params (w1\<lparr>console := console w1 @ [ErrorUnwrappingParams e]\<rparr>))
         = (Inl err, w2)"
  shows "strIOFuncWrapper E depth func (Text j) w = (Inl err, w2)"
  using assms by (cases r) (simp_all add: strIOFuncWrapper_def)

theorem host_failure_propagates_witness:
  "JSON_parse (JObj [(''type'', JStr ''plain''), (''data'', JNull)]) (store newWorld)
     = (VRef 0, [plainObject [(''type'', VStr ''plain''), (''data'', VNull)]]) \<and>
   unwrapFromJson sampleEngine 3 (VRef 0)
       (newWorld\<lparr>store := [plainObject [(''type'', VStr ''plain''), (''data'', VNull)]]\<rparr>)
     = (Inr VNull, newWorld\<lparr>store := [plainObject [(''type'', VStr ''plain''), (''data'', VNull)]]\<rparr>) \<and>
   releaseObjectWithIdInner VNull
       (newWorld\<lparr>store := [plainObject [(''type'', VStr ''plain''), (''data'', VNull)]]\<rparr>)
     = (Inl TypeError, newWorld\<lparr>store := [plainObject [(''type'', VStr ''plain''), (''data'', VNull)]]\<rparr>) \<and>
   strIOFuncWrapper sampleEngine 3 releaseObjectWithIdInner
       (Text (JObj [(''type'', JStr ''plain''), (''data'', JNull)])) newWorld
     = (Inl TypeError, newWorld\<lparr>store := [plainObject [(''type'', VStr ''plain''), (''data'', VNull)]]\<rparr>)"
  using host_failure_propagates [of "JObj [(''type'', JStr ''plain''), (''data'', JNull)]" newWorld
      "VRef 0" "[plainObject [(''type'', VStr ''plain''), (''data'', VNull)]]" sampleEngine 3
      "Inr VNull" "newWorld\<lparr>store := [plainObject [(''type'', VStr ''plain''), (''data'', VNull)]]\<rparr>"
      releaseObjectWithIdInner TypeError
      "newWorld\<lparr>store := [plainObject [(''type'', VStr ''plain''), (''data'', VNull)]]\<rparr>"]
  by (simp add: newWorld_def alloc_def plainObject_def getProp_def valueAt_def deref_def
     releaseObjectWithIdInner_def eval_nat_numeral)

text \<open>
  C10 (a failed decode does not stop the request). When \<open>unwrapFromJson\<close> raises on the
  parsed request, the wrapped function writes the line \<open>Error unwrapping params\<close> and
  calls the operation on the value that \<open>JSON.parse\<close> returned, in the state the failed
  decode left. What the wrapped function returns is made of what that call returns: the
  error the operation raises, or the text of the encoded result, or, where the encode
  fails, the text of the result itself.
\<close>

theorem decode_failure_still_calls:
  assumes "JSON_parse j (store w) = (params, h)"
    and "unwrapFromJson E depth params (w\<lparr>store := h\<rparr>) = (Inl e, w1)"
  shows "let w2 = w1\<lparr>console := console w1 @ [ErrorUnwrappingParams e]\<rparr> in
     (\<forall>err w3. func params w2 = (Inl err, w3) \<longrightarrow>
        strIOFuncWrapper E depth func (Text j) w = (Inl err, w3)) \<and>
     (\<forall>returned w3 node w4.
        func params w2 = (Inr returned, w3) \<and> wrapToJson depth returned w3 = (Inr node, w4) \<longrightarrow>
        strIOFuncWrapper E depth func (Text j) w
          = (JSON_stringify E depth [] (store w4) node, w4)) \<and>
     (\<forall>returned w3 e' w4.
        func params w2 = (Inr returned, w3) \<and> wrapToJson depth returned w3 = (Inl e', w4) \<longrightarrow>
        strIOFuncWrapper E depth func (Text j) w
          = (JSON_stringify E depth [] (store w4) returned,
             w4\<lparr>console := console w4 @ [ErrorWrappingResult e']\<rparr>))"
  using assms by (simp add: strIOFuncWrapper_def Let_def)

text \<open>
  The request \<open>{"type":"array","data":[{"type":"plain","data":5},null]}\<close>: the decode
  fails at the second element, after it has overwritten the first one.
  \<open>_releaseObjectWithId\<close> is called with the parsed node all the same: it reads the
  property \<open>id\<close> of the node, releases \<open>undefined\<close> and returns; the response is the text
  of a \<open>plain\<close> node. An operation that raises on the node ends the wrapped function with
  its error.
\<close>

theorem decode_failure_still_calls_witness:
  "(let j = JObj [(''type'', JStr ''array''),
                  (''data'', JArr [JObj [(''type'', JStr ''plain''), (''data'', JNum 5)], JNull])];
        h = [plainObject [(''type'', VStr ''plain''), (''data'', VNum (Fin 5))],
             (KArray 2, [(''0'', VRef 0), (''1'', VNull)]),
             plainObject [(''type'', VStr ''array''), (''data'', VRef 1)]];
        h' = [plainObject [(''type'', VStr ''plain''), (''data'', VNum (Fin 5))],
              (KArray 2, [(''0'', VNum (Fin 5)), (''1'', VNull)]),
              plainObject [(''type'', VStr ''array''), (''data'', VRef 1)]];
        w2 = newWorld\<lparr>store := h', console := [ErrorUnwrappingParams TypeError]\<rparr>;
        w3 = w2\<lparr>objectPoolManager := releaseObjectWithId newObjectPoolManager VUndefined\<rparr>;
        w4 = w3\<lparr>store := h' @ [plainObject [(''type'', VStr ''plain''), (''data'', VNull)]]\<rparr>
    in JSON_parse j (store newWorld) = (VRef 2, h) \<and>
       unwrapFromJson sampleEngine 3 (VRef 2) (newWorld\<lparr>store := h\<rparr>)
         = (Inl TypeError, newWorld\<lparr>store := h'\<rparr>) \<and>
       releaseObjectWithIdInner (VRef 2) w2 = (Inr VUndefined, w3) \<and>
       wrapToJson 3 VUndefined w3 = (Inr (VRef 3), w4) \<and>
       strIOFuncWrapper sampleEngine 3 releaseObjectWithIdInner (Text j) newWorld
         = (Inr (Some (JObj [(''type'', JStr ''plain''), (''data'', JNull)])), w4) \<and>
       strIOFuncWrapper sampleEngine 3 (\<lambda>params u. (Inl (Error ''Method not found: f''), u))
           (Text j) newWorld
         = (Inl (Error ''Method not found: f''), w2))"
  using decode_failure_still_calls [of
      "JObj [(''type'', JStr ''array''),
             (''data'', JArr [JObj [(''type'', JStr ''plain''), (''data'', JNum 5)], JNull])]"
      newWorld "VRef 2"
      "[plainObject [(''type'', VStr ''plain''), (''data'', VNum (Fin 5))],
        (KArray 2, [(''0'', VRef 0), (''1'', VNull)]),
        plainObject [(''type'', VStr ''array''), (''data'', VRef 1)]]"
      sampleEngine 3 TypeError
      "newWorld\<lparr>store := [plainObject [(''type'', VStr ''plain''), (''data'', VNum (Fin 5))],
              (KArray 2, [(''0'', VNum (Fin 5)), (''1'', VNull)]),
              plainObject [(''type'', VStr ''array''), (''data'', VRef 1)]]\<rparr>"
      releaseObjectWithIdInner]
    decode_failure_still_calls [of
      "JObj [(''type'', JStr ''array''),
             (''data'', JArr [JObj [(''type'', JStr ''plain''), (''data'', JNum 5)], JNull])]"
      newWorld "VRef 2"
      "[plainObject [(''type'', VStr ''plain''), (''data'', VNum (Fin 5))],
        (KArray 2, [(''0'', VRef 0), (''1'', VNull)]),
        plainObject [(''type'', VStr ''array''), (''data'', VRef 1)]]"
      sampleEngine 3 TypeError
      "newWorld\<lparr>store := [plainObject [(''type'', VStr ''plain''), (''data'', VNum (Fin 5))],
              (KArray 2, [(''0'', VNum (Fin 5)), (''1'', VNull)]),
              plainObject [(''type'', VStr ''array''), (''data'', VRef 1)]]\<rparr>"
      "\<lambda>params u. (Inl (Error ''Method not found: f''), u)"]
  by (simp add: evaluation)





section \<open>Dates\<close>

lemma toInteger_of_int [simp]: "toInteger (of_int t) = of_int t"
  by (simp add: toInteger_def)

lemma deref_KDate_in_store: "fst (deref h a) = KDate t \<Longrightarrow> a < length h"
  by (auto simp: deref_def split: if_splits)

text \<open>
  The arithmetic of the date 1001 milliseconds after the epoch: \<open>1001 / 1000\<close> is no
  double, the double nearest to it times 1000 is the double just below 1001, and the date
  made of that keeps 1000.
\<close>

lemma bitlen_1 [simp]: "bitlen 1 = 1"
  by (simp add: compute_bitlen)

lemma bitlen_1000 [simp]: "bitlen 1000 = 10"
  using bitlen_twopow_add_eq [of 488 9] by simp

lemma not_overflow_small: "\<not> overflowBound \<le> 2" "\<not> overflowBound \<le> 1001"
proof -
  have "(1001 :: rat) < 2 ^ 10" by simp
  also have "\<dots> < 2 ^ 1024" by (rule power_strict_increasing) simp_all
  finally show "\<not> overflowBound \<le> 1001" by (simp add: overflowBound_def)
  then show "\<not> overflowBound \<le> 2" by simp
qed

lemma toDouble_steps:
  assumes "0 < r" and "1 \<le> r" and "\<lfloor>r\<rfloor> = f" and "bitlen f - 1 = e" and "- 1022 \<le> e"
    and "\<lfloor>r * pow2 (52 - e)\<rfloor> = m" and "r * pow2 (52 - e) - of_int m < 1 / 2"
    and "of_int m * pow2 (e - 52) = v" and "\<not> overflowBound \<le> v"
  shows "toDouble r = Fin v"
proof -
  have ex: "exponentOf r = e" using assms(1-4) by (simp add: exponentOf_def)
  have rd: "roundHalfEven (r * pow2 (52 - e)) = m"
    using assms(6,7) by (simp add: roundHalfEven_def Let_def)
  have mx: "max e (- 1022) = e" using assms(5) by simp
  show ?thesis
    using assms(1,8,9) by (simp add: toDouble_def ex mx rd Let_def)
qed

lemma divide_1001: "divideBy1000 (Fin 1001) = Fin (2254051613498933 / 2251799813685248)"
proof -
  define r :: rat where "r = 1001 / 1000"
  have "toDouble r = Fin (2254051613498933 / 2251799813685248)"
  proof (rule toDouble_steps [where f = 1 and e = 0 and m = 4508103226997866])
    show "\<lfloor>r\<rfloor> = 1" unfolding r_def by (rule floor_unique) simp_all
    show "\<lfloor>r * pow2 (52 - 0)\<rfloor> = 4508103226997866"
      unfolding r_def by (rule floor_unique) (simp_all add: pow2_def)
    show "\<not> overflowBound \<le> 2254051613498933 / 2251799813685248"
      using not_overflow_small(1) by simp
  qed (simp_all add: r_def pow2_def)
  then show ?thesis by (simp add: r_def)
qed

lemma times_1001:
  "times1000 (Fin (2254051613498933 / 2251799813685248)) = Fin (8804889115230207 / 8796093022208)"
proof -
  define r :: rat where "r = 2254051613498933 / 2251799813685248 * 1000"
  have "toDouble r = Fin (8804889115230207 / 8796093022208)"
  proof (rule toDouble_steps [where f = 1000 and e = 9 and m = 8804889115230207])
    show "\<lfloor>r\<rfloor> = 1000" unfolding r_def by (rule floor_unique) simp_all
    show "\<lfloor>r * pow2 (52 - 9)\<rfloor> = 8804889115230207"
      unfolding r_def by (rule floor_unique) (simp_all add: pow2_def)
    show "\<not> overflowBound \<le> 8804889115230207 / 8796093022208"
      using not_overflow_small(2) by simp
  qed (simp_all add: r_def pow2_def)
  then show ?thesis by (simp only: times1000.simps r_def)
qed

lemma clip_1001: "timeClip (Fin (8804889115230207 / 8796093022208)) = Fin 1000"
proof -
  have "\<lfloor>8804889115230207 / 8796093022208 :: rat\<rfloor> = 1000" by (rule floor_unique) simp_all
  then show ?thesis by (simp add: toInteger_def)
qed

text \<open>
  C9 (date round trip). The code breaks it: the date 1001 milliseconds after the epoch
  is encoded as the node \<open>{type: 'date', data: 1.001}\<close>, whose number is the double
  nearest to 1.001, and the decode of that node is a date 1000 milliseconds after the
  epoch.
\<close>

theorem date_round_trip_loses_a_millisecond:
  "(let w = newWorld\<lparr>store := [(KDate (Fin 1001), [])]\<rparr>;
        node = plainObject [(''type'', VStr ''date''),
                            (''data'', VNum (Fin (2254051613498933 / 2251799813685248)))];
        w1 = w\<lparr>store := [(KDate (Fin 1001), []), node]\<rparr>
    in wrapToJson 1 (VRef 0) w = (Inr (VRef 1), w1) \<and>
       unwrapFromJson sampleEngine 1 (VRef 1) w1
         = (Inr (VRef 2), w1\<lparr>store := [(KDate (Fin 1001), []), node, (KDate (Fin 1000), [])]\<rparr>))"
  using divide_1001 times_1001 clip_1001
  by (simp add: newWorld_def deref_def isJsonNode_def typeof_def specifierOf_def alloc_def
      plainObject_def getProp_def valueAt_def toNumber_def Let_def
      del: divideBy1000.simps times1000.simps timeClip.simps)

text \<open>
  Where the timestamp in seconds is exact, that is where \<open>t / 1000\<close> is a double, the
  round trip holds: a date of the store that holds a whole number \<open>t\<close> of milliseconds,
  at most 8.64e15 from the epoch, is encoded as the node \<open>{type: 'date', data: t / 1000}\<close>,
  and the decode of that node makes a new date with the time value \<open>t\<close>.
\<close>

lemma date_round_trip_exact:
  assumes "deref (store w) a = (KDate (Fin (of_int t)), ps)"
    and "\<bar>t\<bar> \<le> 8640000000000000"
    and "toDouble (of_int t / 1000) = Fin (of_int t / 1000)"
  shows "let node = plainObject [(''type'', VStr ''date''), (''data'', VNum (Fin (of_int t / 1000)))];
             w1 = w\<lparr>store := store w @ [node]\<rparr>
         in wrapToJson (Suc n) (VRef a) w = (Inr (VRef (length (store w))), w1) \<and>
            unwrapFromJson E (Suc m) (VRef (length (store w))) w1
              = (Inr (VRef (Suc (length (store w)))),
                 w1\<lparr>store := store w1 @ [(KDate (Fin (of_int t)), [])]\<rparr>)"
proof -
  have k: "fst (deref (store w) a) = KDate (Fin (of_int t))" using assms(1) by simp
  have a: "a < length (store w)" using k by (rule deref_KDate_in_store)
  have notjson: "\<not> isJsonNode (store w) (VRef a)"
    using k by (simp add: isJsonNode_def typeof_def)
  have nospec: "specifierOf (store w) (VRef a) = None"
    using k by (simp add: specifierOf_def)
  have ty: "typeof (store w) (VRef a) = ''object''"
    using k by (simp add: typeof_def)
  have enc: "wrapToJson (Suc n) (VRef a) w =
      (Inr (VRef (length (store w))),
       w\<lparr>store := store w @ [plainObject [(''type'', VStr ''date''), (''data'', VNum (Fin (of_int t / 1000)))]]\<rparr>)"
    using k assms(3) notjson nospec ty by (simp add: alloc_def)
  have "\<bar>t\<bar> < 2 ^ 53" using assms(2) by simp
  then have "toDouble (of_int t) = Fin (of_int t)" by (rule toDouble_of_int)
  then have clip: "timeClip (times1000 (Fin (of_int t / 1000))) = Fin (of_int t)"
    using assms(2) by simp
  have dec: "unwrapFromJson E (Suc m) (VRef (length (store w)))
        (w\<lparr>store := store w @ [plainObject [(''type'', VStr ''date''), (''data'', VNum (Fin (of_int t / 1000)))]]\<rparr>)
      = (Inr (VRef (Suc (length (store w)))),
         w\<lparr>store := store w @ [plainObject [(''type'', VStr ''date''), (''data'', VNum (Fin (of_int t / 1000)))]]
                      @ [(KDate (Fin (of_int t)), [])]\<rparr>)"
    using clip by (simp add: getProp_def valueAt_def deref_def plainObject_def toNumber_def alloc_def
        del: times1000.simps timeClip.simps)
  show ?thesis using enc dec by (simp add: Let_def)
qed

text \<open>The date 1500 seconds after the epoch: the node carries 1500, and comes back.\<close>

lemma date_1500_seconds:
  "(let w = newWorld\<lparr>store := [(KDate (Fin 1500000), [])]\<rparr>;
        w1 = w\<lparr>store := [(KDate (Fin 1500000), []),
                          plainObject [(''type'', VStr ''date''), (''data'', VNum (Fin 1500))]]\<rparr>
    in wrapToJson (Suc 0) (VRef 0) w = (Inr (VRef 1), w1) \<and>
       unwrapFromJson sampleEngine (Suc 0) (VRef 1) w1 =
         (Inr (VRef 2),
          w1\<lparr>store := [(KDate (Fin 1500000), []),
                         plainObject [(''type'', VStr ''date''), (''data'', VNum (Fin 1500))],
                         (KDate (Fin 1500000), [])]\<rparr>))"
  using date_round_trip_exact [of "newWorld\<lparr>store := [(KDate (Fin 1500000), [])]\<rparr>" 0 1500000 "[]" 0 sampleEngine 0]
  by (simp add: newWorld_def deref_def isJsonNode_def typeof_def specifierOf_def alloc_def
      plainObject_def getProp_def valueAt_def toNumber_def toInteger_def Let_def)

section \<open>A specifier of unknown class\<close>

lemma specifierOf_Some: "specifierOf h obj = Some sp \<Longrightarrow> \<exists>a. obj = VRef a"
  by (cases obj) (simp_all add: specifierOf_def)

lemma hasInstance_specifierOf: "hasInstance h v \<longleftrightarrow> specifierOf h v \<noteq> None"
  by (cases v) (auto simp: hasInstance_def specifierOf_def split: okind.splits)

lemma specifier_not_json: "specifierOf h obj = Some sp \<Longrightarrow> \<not> isJsonNode h obj"
  by (cases obj) (auto simp: specifierOf_def isJsonNode_def typeof_def split: okind.splits)

lemma guessClassOfSpecifier_frame:
  assumes "guessClassOfSpecifier obj w = (g, w1)"
  shows "store w1 = store w \<and> objectPoolManager w1 = objectPoolManager w \<and> console w1 = console w \<and>
         (hostCalls w1 = hostCalls w \<or> (\<exists>a. obj = VRef a \<and> hostCalls w1 = hostCalls w @ [ClassCall a]))"
proof (cases "specifierOf (store w) obj")
  case None
  then show ?thesis using assms by (simp add: guessClassOfSpecifier_def)
next
  case (Some sp)
  then obtain a where a: "obj = VRef a" using specifierOf_Some by blast
  show ?thesis using assms Some unfolding a
    by (auto simp: guessClassOfSpecifier_def Let_def split: if_splits option.splits sum.splits)
qed

text \<open>
  C4 (no implicit dereference on unknown class). For a specifier whose class guess is
  \<open>undefined\<close>, \<open>wrapToJson\<close> returns a new node with the fields \<open>type: 'reference'\<close>,
  \<open>objId\<close> (what \<open>getId\<close> returns), \<open>app\<close> and \<open>className: 'unknown'\<close>. The only call
  that can have reached the host is the class query of the guess; the specifier itself is
  not called: every \<open>SelfCall\<close> in the record was there before.
\<close>

theorem unknown_class_is_reference:
  assumes "specifierOf (store w) obj = Some sp"
    and "guessClassOfSpecifier obj w = (VUndefined, w1)"
  shows "let (ident, pool') = getId (objectPoolManager w) obj;
             node = plainObject [(''type'', VStr ''reference''), (''objId'', VNum ident),
                                 (''app'', getAssociatedApplicationName sp),
                                 (''className'', VStr ''unknown'')]
         in wrapToJson (Suc n) obj w =
              (Inr (VRef (length (store w))),
               w1\<lparr>store := store w @ [node], objectPoolManager := pool'\<rparr>) \<and>
            (\<exists>a. obj = VRef a \<and>
                 (hostCalls w1 = hostCalls w \<or> hostCalls w1 = hostCalls w @ [ClassCall a])) \<and>
            (\<forall>a. SelfCall a \<in> set (hostCalls w1) \<longrightarrow> SelfCall a \<in> set (hostCalls w))"
proof -
  obtain a where a: "obj = VRef a" using assms(1) specifierOf_Some by blast
  have fr: "store w1 = store w" "objectPoolManager w1 = objectPoolManager w"
    "hostCalls w1 = hostCalls w \<or> hostCalls w1 = hostCalls w @ [ClassCall a]"
    using guessClassOfSpecifier_frame [OF assms(2)] a by auto
  have nj: "\<not> isJsonNode (store w) obj" using assms(1) by (rule specifier_not_json)
  have ne: "obj \<noteq> VUndefined" using a by simp
  obtain ident pool' where g: "getId (objectPoolManager w) obj = (ident, pool')"
    by (cases "getId (objectPoolManager w) obj")
  have enc: "wrapToJson (Suc n) obj w =
      (Inr (VRef (length (store w))),
       w1\<lparr>store := store w @ [plainObject [(''type'', VStr ''reference''), (''objId'', VNum ident),
                                 (''app'', getAssociatedApplicationName sp),
                                 (''className'', VStr ''unknown'')]], objectPoolManager := pool'\<rparr>)"
    using assms nj ne g fr(1,2) by (simp add: referenceNode_def alloc_def)
  have calls: "\<forall>b. SelfCall b \<in> set (hostCalls w1) \<longrightarrow> SelfCall b \<in> set (hostCalls w)"
    using fr(3) by auto
  show ?thesis using enc fr(3) calls a g by (simp add: Let_def)
qed

theorem unknown_class_is_reference_witness:
  "(let w = newWorld\<lparr>store := [(KSpecifier sampleSpecifier, [])]\<rparr>;
        w1 = w\<lparr>hostCalls := [ClassCall 0]\<rparr>
    in specifierOf (store w) (VRef 0) = Some sampleSpecifier \<and>
       guessClassOfSpecifier (VRef 0) w = (VUndefined, w1) \<and>
       getId (objectPoolManager w) (VRef 0) =
         (Fin 1, \<lparr>currentId = Fin 1, objectIdMap = [VRef 0 \<mapsto> Fin 1],
                  idObjectMap = [VNum (Fin 1) \<mapsto> VRef 0]\<rparr>) \<and>
       wrapToJson (Suc 0) (VRef 0) w =
         (Inr (VRef 1),
          w1\<lparr>store := [(KSpecifier sampleSpecifier, []),
                         plainObject [(''type'', VStr ''reference''), (''objId'', VNum (Fin 1)),
                                      (''app'', VStr ''Finder''), (''className'', VStr ''unknown'')]],
              objectPoolManager :=
                \<lparr>currentId = Fin 1, objectIdMap = [VRef 0 \<mapsto> Fin 1],
                 idObjectMap = [VNum (Fin 1) \<mapsto> VRef 0]\<rparr>\<rparr>))"
  using unknown_class_is_reference [of "newWorld\<lparr>store := [(KSpecifier sampleSpecifier, [])]\<rparr>"
      "VRef 0" sampleSpecifier
      "newWorld\<lparr>store := [(KSpecifier sampleSpecifier, [])], hostCalls := [ClassCall 0]\<rparr>" 0]
  by (simp add: newWorld_def newObjectPoolManager_def specifierOf_def deref_def
      guessClassOfSpecifier_def guessIsSpecifierContainer_def sampleSpecifier_def getId_def
      getAssociatedApplicationName_def matchApplication_def quoteChars_def Let_def)

text \<open>
  The first version calls that same specifier and wraps the 7 it evaluates to.
\<close>

lemma wrapObjToJson_calls_unknown_specifier:
  "(case wrapObjToJson sampleEngine 2 (VRef 0)
           (newWorld\<lparr>store := [(KSpecifier sampleSpecifier, [])]\<rparr>, newCache) of
      (r, w', c) \<Rightarrow>
        r = Inr (VRef 1) \<and>
        store w' = [(KSpecifier sampleSpecifier, []),
                    plainObject [(''type'', VStr ''plain''), (''data'', VNum (Fin 7))]] \<and>
        hostCalls w' = [ClassCall 0, SelfCall 0])"
  by (simp add: newWorld_def specifierOf_def deref_def guessClassOfSpecifierV1_def
      guessIsContainerSpecifier_def sampleSpecifier_def isJsonNodeValue_def typeof_def
      callSpecifier_def alloc_def eval_nat_numeral Let_def)

section \<open>Encoder and decoder: what they change\<close>

lemma decodeFrame_refl [simp]: "decodeFrame w w"
  by (simp add: decodeFrame_def)

lemma decodeFrame_trans: "decodeFrame w w1 \<Longrightarrow> decodeFrame w1 w2 \<Longrightarrow> decodeFrame w w2"
  by (simp add: decodeFrame_def)

lemma setProp_length: "setProp h d k x = Inr h' \<Longrightarrow> length h' = length h"
  by (auto simp: setProp_def split: jsval.splits)

lemma decodeFrame_setProp:
  "setProp (store w) d k x = Inr h' \<Longrightarrow> decodeFrame w (w\<lparr>store := h'\<rparr>)"
  by (simp add: decodeFrame_def setProp_length)

lemma unwrapKeys_frame:
  assumes f: "\<And>x w r w'. f x w = (r, w') \<Longrightarrow> decodeFrame w w'"
  shows "unwrapKeys f obj ks w = (r, w') \<Longrightarrow> decodeFrame w w'"
proof (induction ks arbitrary: w)
  case Nil
  then show ?case by simp
next
  case (Cons k ks)
  show ?case
  proof (cases "getProp (store w) obj ''data''")
    case (Inl e)
    then show ?thesis using Cons.prems by simp
  next
    case d: (Inr d)
    show ?thesis
    proof (cases "getProp (store w) d k")
      case (Inl e)
      then show ?thesis using Cons.prems d by simp
    next
      case x: (Inr x)
      obtain r1 w1 where fx: "f x w = (r1, w1)" by (cases "f x w")
      have fr1: "decodeFrame w w1" using f [OF fx] .
      show ?thesis
      proof (cases r1)
        case (Inl e)
        then show ?thesis using Cons.prems d x fx fr1 by simp
      next
        case r: (Inr y)
        show ?thesis
        proof (cases "setProp (store w1) d k y")
          case (Inl e)
          then show ?thesis using Cons.prems d x fx r fr1 by simp
        next
          case h: (Inr h')
          have rest: "unwrapKeys f obj ks (w1\<lparr>store := h'\<rparr>) = (r, w')"
            using Cons.prems d x fx r h by simp
          have "decodeFrame w1 (w1\<lparr>store := h'\<rparr>)" using h by (rule decodeFrame_setProp)
          with fr1 Cons.IH [OF rest] show ?thesis by (blast intro: decodeFrame_trans)
        qed
      qed
    qed
  qed
qed

lemma unwrapFromJson_frame:
  "unwrapFromJson E n obj w = (r, w') \<Longrightarrow> decodeFrame w w'"
proof (induction n arbitrary: obj w r w')
  case 0
  then show ?case by auto
next
  case (Suc n)
  have loop: "\<And>ks o' v r' v'. unwrapKeys (unwrapFromJson E n) o' ks v = (r', v') \<Longrightarrow> decodeFrame v v'"
    by (rule unwrapKeys_frame) (rule Suc.IH)
  show ?case
  proof (cases "getProp (store w) obj ''type''")
    case (Inl e)
    then show ?thesis using Suc.prems by auto
  next
    case ty: (Inr ty)
    consider (plain) "ty = VStr ''plain''" | (date) "ty = VStr ''date''"
      | (container) "ty = VStr ''array'' \<or> ty = VStr ''dict''"
      | (reference) "ty = VStr ''reference''"
      | (other) "ty \<noteq> VStr ''plain''" "ty \<noteq> VStr ''date''" "ty \<noteq> VStr ''array''"
          "ty \<noteq> VStr ''dict''" "ty \<noteq> VStr ''reference''"
      by blast
    then show ?thesis
    proof cases
      case plain
      then show ?thesis using Suc.prems ty by auto
    next
      case date
      then show ?thesis using Suc.prems ty
        by (auto simp: alloc_def decodeFrame_def split: sum.splits)
    next
      case container
      show ?thesis
      proof (cases "getProp (store w) obj ''data''")
        case (Inl e)
        then show ?thesis using Suc.prems ty container by auto
      next
        case d: (Inr d)
        obtain r1 w1 where l: "unwrapKeys (unwrapFromJson E n) obj (forInKeys (store w) d) w = (r1, w1)"
          by (cases "unwrapKeys (unwrapFromJson E n) obj (forInKeys (store w) d) w")
        have "decodeFrame w w1" using loop [OF l] .
        moreover have "w' = w1" using Suc.prems ty container d l by (cases r1) auto
        ultimately show ?thesis by simp
      qed
    next
      case reference
      then show ?thesis using Suc.prems ty by (auto split: sum.splits)
    next
      case other
      then show ?thesis using Suc.prems ty by auto
    qed
  qed
qed

lemma unwrapKeys_state:
  assumes f: "\<And>x w r w' v. f x w = (r, w') \<Longrightarrow> store v = store w \<Longrightarrow>
                objectPoolManager v = objectPoolManager w \<Longrightarrow> f x v = (r, v\<lparr>store := store w'\<rparr>)"
    and fr: "\<And>x w r w'. f x w = (r, w') \<Longrightarrow> decodeFrame w w'"
  shows "unwrapKeys f obj ks w = (r, w') \<Longrightarrow> store v = store w \<Longrightarrow>
           objectPoolManager v = objectPoolManager w \<Longrightarrow>
           unwrapKeys f obj ks v = (r, v\<lparr>store := store w'\<rparr>)"
proof (induction ks arbitrary: w v)
  case Nil
  then show ?case by simp
next
  case (Cons k ks)
  show ?case
  proof (cases "getProp (store w) obj ''data''")
    case (Inl e)
    then show ?thesis using Cons.prems by simp
  next
    case d: (Inr d)
    show ?thesis
    proof (cases "getProp (store w) d k")
      case (Inl e)
      then show ?thesis using Cons.prems d by simp
    next
      case x: (Inr x)
      obtain r1 w1 where fx: "f x w = (r1, w1)" by (cases "f x w")
      have fv: "f x v = (r1, v\<lparr>store := store w1\<rparr>)"
        using f [OF fx Cons.prems(2,3)] .
      have p1: "objectPoolManager w1 = objectPoolManager w"
        using fr [OF fx] by (simp add: decodeFrame_def)
      show ?thesis
      proof (cases r1)
        case (Inl e)
        then show ?thesis using Cons.prems d x fx fv by simp
      next
        case r: (Inr y)
        show ?thesis
        proof (cases "setProp (store w1) d k y")
          case (Inl e)
          then show ?thesis using Cons.prems d x fx fv r by simp
        next
          case h: (Inr h')
          have rest: "unwrapKeys f obj ks (w1\<lparr>store := h'\<rparr>) = (r, w')"
            using Cons.prems d x fx r h by simp
          have "unwrapKeys f obj ks (v\<lparr>store := h'\<rparr>) = (r, v\<lparr>store := h'\<rparr>\<lparr>store := store w'\<rparr>)"
            by (rule Cons.IH [OF rest]) (simp_all add: p1 Cons.prems(3))
          then show ?thesis using Cons.prems d x fv r h by simp
        qed
      qed
    qed
  qed
qed

lemma world_store_same: "store v = s \<Longrightarrow> v\<lparr>store := s\<rparr> = v"
  by (cases v) simp

lemma unwrapFromJson_state:
  "unwrapFromJson E n obj w = (r, w') \<Longrightarrow> store v = store w \<Longrightarrow>
     objectPoolManager v = objectPoolManager w \<Longrightarrow>
     unwrapFromJson E n obj v = (r, v\<lparr>store := store w'\<rparr>)"
proof (induction n arbitrary: obj w r w' v)
  case 0
  then have "r = Inl RangeError" "w' = w" by simp_all
  then show ?case using "0.prems"(2) by (simp add: world_store_same)
next
  case (Suc n)
  note run = Suc.prems(1) and sv = Suc.prems(2) and pv = Suc.prems(3)
  have same: "v\<lparr>store := store w\<rparr> = v" using sv by (rule world_store_same)
  have loop: "\<And>ks o' u r' u' t. unwrapKeys (unwrapFromJson E n) o' ks u = (r', u') \<Longrightarrow>
      store t = store u \<Longrightarrow> objectPoolManager t = objectPoolManager u \<Longrightarrow>
      unwrapKeys (unwrapFromJson E n) o' ks t = (r', t\<lparr>store := store u'\<rparr>)"
    by (rule unwrapKeys_state) (erule Suc.IH, assumption+, erule unwrapFromJson_frame)
  show ?case
  proof (cases "getProp (store w) obj ''type''")
    case (Inl e)
    then have "r = Inl e" "w' = w" using run by auto
    then show ?thesis using Inl same by (simp add: sv)
  next
    case ty: (Inr ty)
    consider (plain) "ty = VStr ''plain''" | (date) "ty = VStr ''date''"
      | (container) "ty = VStr ''array'' \<or> ty = VStr ''dict''"
      | (reference) "ty = VStr ''reference''"
      | (other) "ty \<noteq> VStr ''plain''" "ty \<noteq> VStr ''date''" "ty \<noteq> VStr ''array''"
          "ty \<noteq> VStr ''dict''" "ty \<noteq> VStr ''reference''"
      by blast
    then show ?thesis
    proof cases
      case plain
      then have "r = getProp (store w) obj ''data''" "w' = w" using run ty by auto
      then show ?thesis using ty plain same by (simp add: sv)
    next
      case date
      show ?thesis
      proof (cases "getProp (store w) obj ''data''")
        case (Inl e)
        then have "r = Inl e" "w' = w" using run ty date by auto
        then show ?thesis using ty date Inl same by (simp add: sv)
      next
        case d: (Inr d)
        show ?thesis
        proof (cases "toNumber E (store w) d")
          case (Inl e)
          then have "r = Inl e" "w' = w" using run ty date d by auto
          then show ?thesis using ty date d Inl same by (simp add: sv)
        next
          case (Inr x)
          then have "r = Inr (VRef (length (store w)))"
            "w' = w\<lparr>store := store w @ [(KDate (timeClip (times1000 x)), [])]\<rparr>"
            using run ty date d by (auto simp: alloc_def)
          then show ?thesis using ty date d Inr by (simp add: sv alloc_def)
        qed
      qed
    next
      case container
      show ?thesis
      proof (cases "getProp (store w) obj ''data''")
        case (Inl e)
        then have "r = Inl e" "w' = w" using run ty container by auto
        then show ?thesis using ty container Inl same by (auto simp: sv)
      next
        case d: (Inr d)
        obtain r1 w1 where l: "unwrapKeys (unwrapFromJson E n) obj (forInKeys (store w) d) w = (r1, w1)"
          by (cases "unwrapKeys (unwrapFromJson E n) obj (forInKeys (store w) d) w")
        have lv: "unwrapKeys (unwrapFromJson E n) obj (forInKeys (store w) d) v = (r1, v\<lparr>store := store w1\<rparr>)"
          using loop [OF l sv pv] .
        show ?thesis
        proof (cases r1)
          case (Inl e)
          then have "r = Inl e" "w' = w1" using run ty container d l by auto
          then show ?thesis using ty container d lv Inl by (auto simp: sv)
        next
          case (Inr u)
          then have "r = getProp (store w1) obj ''data''" "w' = w1" using run ty container d l by auto
          then show ?thesis using ty container d lv Inr by (auto simp: sv)
        qed
      qed
    next
      case reference
      show ?thesis
      proof (cases "getProp (store w) obj ''objId''")
        case (Inl e)
        then have "r = Inl e" "w' = w" using run ty reference by auto
        then show ?thesis using ty reference Inl same by (simp add: sv)
      next
        case (Inr ident)
        then have "r = Inr (getObject (objectPoolManager w) ident)" "w' = w"
          using run ty reference by auto
        then show ?thesis using ty reference Inr same by (simp add: sv pv)
      qed
    next
      case other
      then have "r = Inr VUndefined" "w' = w" using run ty by auto
      then show ?thesis using ty other same by (simp add: sv)
    qed
  qed
qed

lemma unwrapFromJson_returns_container:
  assumes "unwrapFromJson E n obj w = (Inr x, w')"
    and "getProp (store w) obj ''type'' = Inr ty"
    and "ty = VStr ''array'' \<or> ty = VStr ''dict''"
  shows "getProp (store w') obj ''data'' = Inr x"
proof (cases n)
  case 0
  then show ?thesis using assms by simp
next
  case (Suc m)
  show ?thesis
  proof (cases "getProp (store w) obj ''data''")
    case (Inl e)
    then show ?thesis using assms Suc by auto
  next
    case d: (Inr d)
    obtain r1 w1 where l: "unwrapKeys (unwrapFromJson E m) obj (forInKeys (store w) d) w = (r1, w1)"
      by (cases "unwrapKeys (unwrapFromJson E m) obj (forInKeys (store w) d) w")
    show ?thesis using assms Suc d l by (cases r1) auto
  qed
qed

lemma encodeFrame_refl [simp]: "encodeFrame w w"
proof -
  have "objectPoolManager w = callsPool (map GetId []) (objectPoolManager w)" by simp
  moreover have "store w = store w @ []" by simp
  moreover have "hostCalls w = hostCalls w @ [] \<and> (\<forall>a. SelfCall a \<notin> set [])" by simp
  ultimately show ?thesis unfolding encodeFrame_def by blast
qed

lemma encodeFrame_trans:
  assumes "encodeFrame w w1" and "encodeFrame w1 w2"
  shows "encodeFrame w w2"
proof -
  from assms obtain n1 n2 where s: "store w1 = store w @ n1" "store w2 = store w1 @ n2"
    unfolding encodeFrame_def by blast
  from assms obtain o1 o2 where p:
    "objectPoolManager w1 = callsPool (map GetId o1) (objectPoolManager w)"
    "objectPoolManager w2 = callsPool (map GetId o2) (objectPoolManager w1)"
    unfolding encodeFrame_def by blast
  from assms obtain c1 c2 where c: "hostCalls w1 = hostCalls w @ c1" "\<forall>a. SelfCall a \<notin> set c1"
    "hostCalls w2 = hostCalls w1 @ c2" "\<forall>a. SelfCall a \<notin> set c2"
    unfolding encodeFrame_def by blast
  have "store w2 = store w @ (n1 @ n2)" using s by simp
  moreover have "objectPoolManager w2 = callsPool (map GetId (o1 @ o2)) (objectPoolManager w)"
    using p by (simp add: callsPool_append)
  moreover have "hostCalls w2 = hostCalls w @ (c1 @ c2) \<and> (\<forall>a. SelfCall a \<notin> set (c1 @ c2))"
    using c by simp
  moreover have "console w2 = console w" using assms by (simp add: encodeFrame_def)
  ultimately show ?thesis unfolding encodeFrame_def by blast
qed

lemma no_getId: "\<exists>objs. pool = callsPool (map GetId objs) pool"
  by (rule exI [of _ "[]"]) simp

lemma no_call: "\<exists>cs. calls = calls @ cs \<and> (\<forall>a. SelfCall a \<notin> set cs)"
  by (rule exI [of _ "[]"]) simp

lemma encodeFrame_store:
  "encodeFrame w (w\<lparr>store := store w @ new\<rparr>)"
  unfolding encodeFrame_def using no_getId no_call by simp

lemma encodeFrame_guess:
  assumes "guessClassOfSpecifier obj w = (g, w1)"
  shows "encodeFrame w w1"
proof -
  note fr = guessClassOfSpecifier_frame [OF assms]
  have "\<exists>cs. hostCalls w1 = hostCalls w @ cs \<and> (\<forall>a. SelfCall a \<notin> set cs)"
  proof -
    from fr consider "hostCalls w1 = hostCalls w"
      | a where "hostCalls w1 = hostCalls w @ [ClassCall a]" by blast
    then show ?thesis
    proof cases
      case 1
      then show ?thesis using no_call by simp
    next
      case 2
      then show ?thesis by (intro exI [of _ "[ClassCall a]"]) simp
    qed
  qed
  moreover have "\<exists>new. store w1 = store w @ new" using fr by simp
  ultimately show ?thesis unfolding encodeFrame_def using fr no_getId by simp
qed

lemma encodeFrame_referenceNode:
  assumes "referenceNode obj fs w = (r, w')"
  shows "encodeFrame w w'"
proof -
  obtain ident pool' where g: "getId (objectPoolManager w) obj = (ident, pool')"
    by (cases "getId (objectPoolManager w) obj")
  have w': "w' = w\<lparr>store := store w @ [plainObject (fs ident)], objectPoolManager := pool'\<rparr>"
    using assms g by (simp add: referenceNode_def alloc_def)
  have "pool' = callsPool (map GetId [obj]) (objectPoolManager w)" using g by simp
  then have "\<exists>objs. pool' = callsPool (map GetId objs) (objectPoolManager w)" by blast
  then show ?thesis unfolding encodeFrame_def w' using no_call by simp
qed

lemma encodeFrame_containerNode:
  assumes "containerNode tag data w = (r, w')"
  shows "encodeFrame w w'"
proof -
  have "w' = w\<lparr>store := store w @ [data, plainObject [(''type'', VStr tag), (''data'', VRef (length (store w)))]]\<rparr>"
    using assms by (simp add: containerNode_def alloc_def)
  then show ?thesis using encodeFrame_store by simp
qed

lemma encodeFrame_wrapProps:
  assumes f: "\<And>x w r w'. f x w = (r, w') \<Longrightarrow> encodeFrame w w'"
  shows "wrapProps f ps data w = (r, w') \<Longrightarrow> encodeFrame w w'"
proof (induction ps arbitrary: data w)
  case Nil
  then show ?case by simp
next
  case (Cons p ps)
  obtain k x where p: "p = (k, x)" by (cases p)
  obtain r1 w1 where fx: "f x w = (r1, w1)" by (cases "f x w")
  have fr1: "encodeFrame w w1" using f [OF fx] .
  show ?case
  proof (cases r1)
    case (Inl e)
    then show ?thesis using Cons.prems p fx fr1 by simp
  next
    case (Inr node)
    then have "wrapProps f ps (assign k node data) w1 = (r, w')"
      using Cons.prems p fx by simp
    then have "encodeFrame w1 w'" by (rule Cons.IH)
    with fr1 show ?thesis by (rule encodeFrame_trans)
  qed
qed

lemma encodeFrame_loop:
  assumes f: "\<And>x w r w'. f x w = (r, w') \<Longrightarrow> encodeFrame w w'"
    and run: "(case wrapProps f es data w of
                 (Inl e, w1) \<Rightarrow> (Inl e, w1)
               | (Inr filled, w1) \<Rightarrow> containerNode tag filled w1) = (r, w')"
  shows "encodeFrame w w'"
proof -
  obtain r1 w1 where l: "wrapProps f es data w = (r1, w1)"
    by (cases "wrapProps f es data w")
  have fr1: "encodeFrame w w1" using f l by (rule encodeFrame_wrapProps)
  show ?thesis
  proof (cases r1)
    case (Inl e)
    then have "w' = w1" using run l by simp
    then show ?thesis using fr1 by simp
  next
    case (Inr filled)
    then have "containerNode tag filled w1 = (r, w')" using run l by simp
    then have "encodeFrame w1 w'" by (rule encodeFrame_containerNode)
    with fr1 show ?thesis by (rule encodeFrame_trans)
  qed
qed

lemma wrapToJson_frame:
  "wrapToJson n obj0 w = (r, w') \<Longrightarrow> encodeFrame w w'"
proof (induction n arbitrary: obj0 w r w')
  case 0
  then show ?case by auto
next
  case (Suc n)
  note run = Suc.prems
  define obj where "obj = (if obj0 = VUndefined then VNull else obj0)"
  show ?case
  proof (cases "isJsonNode (store w) obj")
    case True
    then have "w' = w\<lparr>store := store w @ [plainObject [(''type'', VStr ''plain''), (''data'', obj)]]\<rparr>"
      using run by (auto simp: obj_def alloc_def Let_def)
    then show ?thesis using encodeFrame_store by simp
  next
    case nj: False
    show ?thesis
    proof (cases "specifierOf (store w) obj")
      case (Some sp)
      obtain g w1 where gc: "guessClassOfSpecifier obj w = (g, w1)"
        by (cases "guessClassOfSpecifier obj w")
      have fr1: "encodeFrame w w1" using gc by (rule encodeFrame_guess)
      have "encodeFrame w1 w'"
        using run nj Some gc
        by (auto simp: obj_def [symmetric] Let_def split: if_splits jsval.splits
            intro: encodeFrame_referenceNode)
      with fr1 show ?thesis by (rule encodeFrame_trans)
    next
      case None
      show ?thesis
      proof (cases "typeof (store w) obj = ''object''")
        case False
        then show ?thesis using run nj None
          by (auto simp: obj_def [symmetric] Let_def split: if_splits
            intro: encodeFrame_referenceNode)
      next
        case True
        show ?thesis
        proof (cases obj)
          case (VRef a)
          consider (date) t where "fst (deref (store w) a) = KDate t"
            | (array) len where "fst (deref (store w) a) = KArray len"
            | (other) "\<forall>t. fst (deref (store w) a) \<noteq> KDate t"
                "\<forall>len. fst (deref (store w) a) \<noteq> KArray len"
            by blast
          then show ?thesis
          proof cases
            case date
            then have "w' = w\<lparr>store := store w @ [plainObject [(''type'', VStr ''date''), (''data'', VNum (divideBy1000 t))]]\<rparr>"
              using run nj None True VRef by (auto simp: obj_def [symmetric] alloc_def Let_def)
            then show ?thesis using encodeFrame_store by simp
          next
            case array
            then have "(case wrapProps (wrapToJson n) (entries (snd (deref (store w) a))) (KArray 0, []) w of
                 (Inl e, w1) \<Rightarrow> (Inl e, w1)
               | (Inr filled, w1) \<Rightarrow> containerNode ''array'' filled w1) = (r, w')"
              using run nj None True VRef by (simp add: obj_def [symmetric] Let_def)
            then show ?thesis by (rule encodeFrame_loop [rotated]) (rule Suc.IH)
          next
            case other
            have branch: "(case constructorIsObject (store w) a of
                  Inl e \<Rightarrow> (Inl e, w)
                | Inr True \<Rightarrow>
                    (case wrapProps (wrapToJson n) (entries (snd (deref (store w) a)))
                            (plainObject []) w of
                       (Inl e, w1) \<Rightarrow> (Inl e, w1)
                     | (Inr filled, w1) \<Rightarrow> containerNode ''dict'' filled w1)
                | Inr False \<Rightarrow> (Inl (Error ''wrapObjToJson: Unknown type: object''), w)) = (r, w')"
              using run nj None True VRef other
              by (cases "fst (deref (store w) a)") (simp_all add: obj_def [symmetric] Let_def)
            show ?thesis
            proof (cases "constructorIsObject (store w) a")
              case (Inl e)
              then have "w' = w" using branch by simp
              then show ?thesis by simp
            next
              case (Inr b)
              show ?thesis
              proof (cases b)
                case False
                then have "w' = w" using branch Inr by simp
                then show ?thesis by simp
              next
                case True
                then have "(case wrapProps (wrapToJson n) (entries (snd (deref (store w) a)))
                            (plainObject []) w of
                       (Inl e, w1) \<Rightarrow> (Inl e, w1)
                     | (Inr filled, w1) \<Rightarrow> containerNode ''dict'' filled w1) = (r, w')"
                  using branch Inr by simp
                then show ?thesis by (rule encodeFrame_loop [rotated]) (rule Suc.IH)
              qed
            qed
          qed
        qed (use run nj None True in \<open>auto simp: obj_def [symmetric] Let_def\<close>)
      qed
    qed
  qed
qed

section \<open>The keys of an object\<close>

lemma indexOfKey_digits: "indexOfKey k = Some i \<Longrightarrow> digits i = k"
  by (auto simp: indexOfKey_def Let_def split: if_splits)

lemma set_indices:
  "set (List.map_filter indexOfKey ks) = {i. \<exists>k \<in> set ks. indexOfKey k = Some i}"
proof (rule set_eqI, rule iffI)
  fix i assume "i \<in> set (List.map_filter indexOfKey ks)"
  then obtain k where "k \<in> set ks" "indexOfKey k \<noteq> None" "i = the (indexOfKey k)"
    by (auto simp: List.map_filter_def)
  then show "i \<in> {i. \<exists>k \<in> set ks. indexOfKey k = Some i}" by auto
next
  fix i assume "i \<in> {i. \<exists>k \<in> set ks. indexOfKey k = Some i}"
  then obtain k where k: "k \<in> set ks" "indexOfKey k = Some i" by auto
  then have "k \<in> set (filter (\<lambda>k. indexOfKey k \<noteq> None) ks)" "(the \<circ> indexOfKey) k = i" by auto
  then have "i \<in> (the \<circ> indexOfKey) ` set (filter (\<lambda>k. indexOfKey k \<noteq> None) ks)" by blast
  then show "i \<in> set (List.map_filter indexOfKey ks)" by (simp only: List.map_filter_def set_map)
qed

lemma set_ownKeys: "set (ownKeys ps) = fst ` set ps"
proof -
  let ?ks = "map fst ps"
  have "digits ` set (List.map_filter indexOfKey ?ks) = {k \<in> set ?ks. indexOfKey k \<noteq> None}"
  proof (rule set_eqI, rule iffI)
    fix k assume "k \<in> digits ` set (List.map_filter indexOfKey ?ks)"
    then obtain i l where "k = digits i" "l \<in> set ?ks" "indexOfKey l = Some i"
      unfolding set_indices by blast
    then show "k \<in> {k \<in> set ?ks. indexOfKey k \<noteq> None}"
      using indexOfKey_digits [of l i] by auto
  next
    fix k assume "k \<in> {k \<in> set ?ks. indexOfKey k \<noteq> None}"
    then obtain i where "k \<in> set ?ks" "indexOfKey k = Some i" by auto
    then have "i \<in> set (List.map_filter indexOfKey ?ks)" "digits i = k"
      unfolding set_indices using indexOfKey_digits by blast+
    then show "k \<in> digits ` set (List.map_filter indexOfKey ?ks)" by blast
  qed
  then have "set (ownKeys ps) = {k \<in> set ?ks. indexOfKey k \<noteq> None} \<union> {k \<in> set ?ks. indexOfKey k = None}"
    by (simp add: ownKeys_def)
  also have "\<dots> = set ?ks" by auto
  finally show ?thesis by simp
qed

lemma distinct_ownKeys:
  assumes "distinct (map fst ps)"
  shows "distinct (ownKeys ps)"
proof -
  let ?ks = "map fst ps"
  let ?is = "List.map_filter indexOfKey ?ks"
  have inj: "inj_on (the \<circ> indexOfKey) (set (filter (\<lambda>k. indexOfKey k \<noteq> None) ?ks))"
  proof (rule inj_onI)
    fix k l
    assume "k \<in> set (filter (\<lambda>k. indexOfKey k \<noteq> None) ?ks)"
      "l \<in> set (filter (\<lambda>k. indexOfKey k \<noteq> None) ?ks)"
      "(the \<circ> indexOfKey) k = (the \<circ> indexOfKey) l"
    then obtain i where "indexOfKey k = Some i" "indexOfKey l = Some i" by auto
    then have "digits i = k" "digits i = l" by (auto dest: indexOfKey_digits)
    then show "k = l" by simp
  qed
  have "distinct (filter (\<lambda>k. indexOfKey k \<noteq> None) ?ks)" using assms by simp
  then have "distinct (map (the \<circ> indexOfKey) (filter (\<lambda>k. indexOfKey k \<noteq> None) ?ks))"
    using inj by (simp only: distinct_map)
  then have d1: "distinct ?is" by (simp only: List.map_filter_def)
  have injd: "inj_on digits (set ?is)"
  proof (rule inj_onI)
    fix i j assume "i \<in> set ?is" "j \<in> set ?is" and eq: "digits i = digits j"
    then obtain k l where "indexOfKey k = Some i" "indexOfKey l = Some j"
      unfolding set_indices by blast
    then have "digits i = k" "digits j = l" "indexOfKey k = Some i" "indexOfKey l = Some j"
      by (auto dest: indexOfKey_digits)
    then show "i = j" using eq by simp
  qed
  have "distinct (sort ?is)" using d1 by simp
  moreover have "inj_on digits (set (sort ?is))" using injd by simp
  ultimately have d2: "distinct (map digits (sort ?is))" by (simp only: distinct_map)
  have d3: "distinct (filter (\<lambda>k. indexOfKey k = None) ?ks)" using assms by simp
  have "indexOfKey k \<noteq> None" if "k \<in> set (map digits (sort ?is))" for k
  proof -
    from that obtain i where "i \<in> set ?is" "k = digits i" by auto
    then obtain l where "indexOfKey l = Some i" unfolding set_indices by blast
    then show ?thesis using \<open>k = digits i\<close> indexOfKey_digits [of l i] by auto
  qed
  then have disj: "set (map digits (sort ?is)) \<inter> set (filter (\<lambda>k. indexOfKey k = None) ?ks) = {}"
    by (simp only: set_filter) blast
  show ?thesis unfolding ownKeys_def using d2 d3 disj by (simp only: distinct_append)
qed

section \<open>A container of plain nodes\<close>

lemma deref_update_other: "a \<noteq> d \<Longrightarrow> deref (h[d := x]) a = deref h a"
  by (simp add: deref_def)

lemma deref_update_same: "d < length h \<Longrightarrow> deref (h[d := x]) d = x"
  by (simp add: deref_def)

lemma getProp_update_other:
  "a \<noteq> d \<Longrightarrow> getProp (h[d := x]) (VRef a) k = getProp h (VRef a) k"
  by (simp add: getProp_def deref_update_other)

lemma keys_partlyDecoded [simp]: "map fst (partlyDecoded S elems) = map fst elems"
  by (simp add: partlyDecoded_def dataEntry_def nodeEntry_def comp_def if_distrib)

lemma partlyDecoded_insert_other:
  "k \<notin> fst ` set elems \<Longrightarrow> partlyDecoded (insert k S) elems = partlyDecoded S elems"
  by (induction elems) (auto simp: partlyDecoded_def)

lemma map_of_partlyDecoded:
  assumes "distinct (map fst elems)" and "(k, e, y) \<in> set elems" and "k \<notin> S"
  shows "map_of (partlyDecoded S elems) k = Some (VRef e)"
  using assms
proof (induction elems)
  case Nil
  then show ?case by simp
next
  case (Cons t ts)
  show ?case
  proof (cases "fst t = k")
    case True
    then have "t = (k, e, y)" using Cons.prems(1,2) by (cases t) (auto simp: image_iff)
    then show ?thesis using Cons.prems(3) by (simp add: partlyDecoded_def nodeEntry_def)
  next
    case False
    then have "(k, e, y) \<in> set ts" using Cons.prems(2) by auto
    then have "map_of (partlyDecoded S ts) k = Some (VRef e)"
      using Cons.IH Cons.prems(1,3) by simp
    then show ?thesis using False
      by (simp add: partlyDecoded_def nodeEntry_def dataEntry_def)
  qed
qed

lemma putProp_partlyDecoded:
  assumes "distinct (map fst elems)" and "(k, e, y) \<in> set elems" and "k \<notin> S"
  shows "putProp k y (partlyDecoded S elems) = partlyDecoded (insert k S) elems"
  using assms
proof (induction elems)
  case Nil
  then show ?case by simp
next
  case (Cons t ts)
  show ?case
  proof (cases "fst t = k")
    case True
    then have t: "t = (k, e, y)" using Cons.prems(1,2) by (cases t) (auto simp: image_iff)
    have "k \<notin> fst ` set ts" using Cons.prems(1) True by auto
    then have rest: "partlyDecoded (insert k S) ts = partlyDecoded S ts"
      by (rule partlyDecoded_insert_other)
    have "partlyDecoded S (t # ts) = (k, VRef e) # partlyDecoded S ts"
      using t Cons.prems(3) by (simp add: partlyDecoded_def nodeEntry_def)
    moreover have "partlyDecoded (insert k S) (t # ts) = (k, y) # partlyDecoded (insert k S) ts"
      using t by (simp add: partlyDecoded_def dataEntry_def)
    ultimately show ?thesis using rest by simp
  next
    case False
    then have "(k, e, y) \<in> set ts" using Cons.prems(2) by auto
    then have ih: "putProp k y (partlyDecoded S ts) = partlyDecoded (insert k S) ts"
      using Cons.IH Cons.prems(1,3) by simp
    have hd: "partlyDecoded S (t # ts)
        = (if fst t \<in> S then dataEntry t else nodeEntry t) # partlyDecoded S ts"
      by (simp add: partlyDecoded_def)
    have hd': "partlyDecoded (insert k S) (t # ts)
        = (if fst t \<in> S then dataEntry t else nodeEntry t) # partlyDecoded (insert k S) ts"
      using False by (simp add: partlyDecoded_def)
    have key: "fst (if fst t \<in> S then dataEntry t else nodeEntry t) \<noteq> k"
      using False by (simp add: dataEntry_def nodeEntry_def)
    show ?thesis unfolding hd hd' using key ih
      by (cases "if fst t \<in> S then dataEntry t else nodeEntry t") auto
  qed
qed

lemma assign_existing:
  assumes "map_of ps k = Some x" and "indicesInRange kind (map fst ps)"
  shows "assign k y (kind, ps) = (kind, putProp k y ps)"
proof -
  have "(k, x) \<in> set ps" using assms(1) by (rule map_of_SomeD)
  then have "fst (k, x) \<in> fst ` set ps" by (rule imageI)
  then have k: "k \<in> set (map fst ps)" by simp
  have "(case kind of
           KArray n \<Rightarrow> (case indexOfKey k of None \<Rightarrow> KArray n | Some i \<Rightarrow> KArray (max n (Suc i)))
         | kind \<Rightarrow> kind) = kind"
  proof (cases kind)
    case (KArray n)
    show ?thesis
    proof (cases "indexOfKey k")
      case None
      then show ?thesis using KArray by simp
    next
      case (Some i)
      have "i < n"
        using assms(2) k Some unfolding KArray indicesInRange_def
        by (auto simp: list_all_iff)
      then show ?thesis using KArray Some by (simp add: max_def)
    qed
  qed simp_all
  then show ?thesis using assms(1) by (simp add: assign_def)
qed

lemma unwrapKeys_flat:
  assumes data: "getProp h0 (VRef a) ''data'' = Inr (VRef d)"
    and ad: "a \<noteq> d" and d: "d < length h0"
    and plain: "\<forall>(k, e, y) \<in> set elems.
                  e \<noteq> d \<and> getProp h0 (VRef e) ''type'' = Inr (VStr ''plain'') \<and>
                  getProp h0 (VRef e) ''data'' = Inr y"
    and dist: "distinct (map fst elems)"
    and range: "indicesInRange kind (map fst elems)"
  shows "distinct ks \<Longrightarrow> set ks \<subseteq> fst ` set elems \<Longrightarrow> set ks \<inter> S = {} \<Longrightarrow>
         unwrapKeys (unwrapFromJson E (Suc n)) (VRef a) ks
           (w\<lparr>store := h0[d := (kind, partlyDecoded S elems)]\<rparr>)
         = (Inr (), w\<lparr>store := h0[d := (kind, partlyDecoded (S \<union> set ks) elems)]\<rparr>)"
proof (induction ks arbitrary: S)
  case Nil
  then show ?case by simp
next
  case (Cons k ks)
  let ?hc = "h0[d := (kind, partlyDecoded S elems)]"
  obtain e y where t: "(k, e, y) \<in> set elems" using Cons.prems(2) by auto
  have kS: "k \<notin> S" using Cons.prems(3) by auto
  have e: "e \<noteq> d" "getProp h0 (VRef e) ''type'' = Inr (VStr ''plain'')"
    "getProp h0 (VRef e) ''data'' = Inr y"
    using plain t by auto
  have rd: "getProp ?hc (VRef a) ''data'' = Inr (VRef d)"
    using data ad by (simp add: getProp_update_other)
  have drf: "deref ?hc d = (kind, partlyDecoded S elems)"
    using d by (simp add: deref_update_same)
  have found: "map_of (partlyDecoded S elems) k = Some (VRef e)"
    using dist t kS by (rule map_of_partlyDecoded)
  have rk: "getProp ?hc (VRef d) k = Inr (VRef e)"
    using drf found by (simp add: getProp_def valueAt_def)
  have dec: "unwrapFromJson E (Suc n) (VRef e) (w\<lparr>store := ?hc\<rparr>) = (Inr y, w\<lparr>store := ?hc\<rparr>)"
    using e by (simp add: getProp_update_other)
  have "assign k y (kind, partlyDecoded S elems) = (kind, putProp k y (partlyDecoded S elems))"
    using found range by (intro assign_existing) simp_all
  then have asg: "assign k y (kind, partlyDecoded S elems) = (kind, partlyDecoded (insert k S) elems)"
    using putProp_partlyDecoded [OF dist t kS] by simp
  have wr: "setProp ?hc (VRef d) k y = Inr (h0[d := (kind, partlyDecoded (insert k S) elems)])"
    using drf asg by (simp add: setProp_def)
  have step: "unwrapKeys (unwrapFromJson E (Suc n)) (VRef a) (k # ks) (w\<lparr>store := ?hc\<rparr>)
      = unwrapKeys (unwrapFromJson E (Suc n)) (VRef a) ks
          (w\<lparr>store := h0[d := (kind, partlyDecoded (insert k S) elems)]\<rparr>)"
    using rd rk dec wr by (simp del: unwrapFromJson.simps)
  have ih: "unwrapKeys (unwrapFromJson E (Suc n)) (VRef a) ks
          (w\<lparr>store := h0[d := (kind, partlyDecoded (insert k S) elems)]\<rparr>)
      = (Inr (), w\<lparr>store := h0[d := (kind, partlyDecoded (insert k S \<union> set ks) elems)]\<rparr>)"
    by (rule Cons.IH) (use Cons.prems in auto)
  have "insert k S \<union> set ks = S \<union> set (k # ks)" by auto
  with step ih show ?case by (simp only:)
qed

lemma partlyDecoded_none: "partlyDecoded {} elems = map nodeEntry elems"
  by (simp add: partlyDecoded_def)

lemma partlyDecoded_all:
  "fst ` set elems \<subseteq> S \<Longrightarrow> partlyDecoded S elems = map dataEntry elems"
  by (auto simp: partlyDecoded_def)

text \<open>
  A node of type \<open>array\<close> or \<open>dict\<close> whose container holds \<open>plain\<close> nodes only: the decode
  puts the \<open>data\<close> of each node in the place of the node, in the container itself, and
  returns the container.
\<close>

lemma unwrapFromJson_flat_container:
  assumes "flatContainer (store w) a d kind elems"
  shows "unwrapFromJson E (Suc (Suc n)) (VRef a) w
           = (Inr (VRef d), w\<lparr>store := (store w)[d := (kind, map dataEntry elems)]\<rparr>)"
proof -
  have ad: "a \<noteq> d" and d: "d < length (store w)"
    and ty: "getProp (store w) (VRef a) ''type'' = Inr (VStr ''array'') \<or>
             getProp (store w) (VRef a) ''type'' = Inr (VStr ''dict'')"
    and data: "getProp (store w) (VRef a) ''data'' = Inr (VRef d)"
    and cont: "deref (store w) d = (kind, map nodeEntry elems)"
    and range: "indicesInRange kind (map fst elems)"
    and dist: "distinct (map fst elems)"
    and plain: "\<forall>(k, e, y) \<in> set elems.
                  e \<noteq> d \<and> getProp (store w) (VRef e) ''type'' = Inr (VStr ''plain'') \<and>
                  getProp (store w) (VRef e) ''data'' = Inr y"
    using assms unfolding flatContainer_def by (auto simp: list_all_iff)
  have kf: "map fst (map nodeEntry elems) = map fst elems"
    by (simp add: nodeEntry_def comp_def)
  have keys: "forInKeys (store w) (VRef d) = ownKeys (map nodeEntry elems)"
    using cont by (simp add: forInKeys_def)
  have "distinct (map fst (map nodeEntry elems))" unfolding kf by (rule dist)
  then have dk: "distinct (ownKeys (map nodeEntry elems))" by (rule distinct_ownKeys)
  have "set (ownKeys (map nodeEntry elems)) = set (map fst (map nodeEntry elems))"
    by (simp only: set_ownKeys set_map)
  then have sk: "set (ownKeys (map nodeEntry elems)) = fst ` set elems"
    unfolding kf by simp
  have same: "(store w)[d := (kind, partlyDecoded {} elems)] = store w"
    using cont d by (simp add: deref_def list_update_same_conv partlyDecoded_none)
  have "unwrapKeys (unwrapFromJson E (Suc n)) (VRef a) (ownKeys (map nodeEntry elems))
           (w\<lparr>store := (store w)[d := (kind, partlyDecoded {} elems)]\<rparr>)
         = (Inr (), w\<lparr>store := (store w)[d := (kind, partlyDecoded ({} \<union> set (ownKeys (map nodeEntry elems))) elems)]\<rparr>)"
    by (rule unwrapKeys_flat [OF data ad d plain dist range dk]) (simp_all add: sk)
  then have loop: "unwrapKeys (unwrapFromJson E (Suc n)) (VRef a) (ownKeys (map nodeEntry elems)) w
         = (Inr (), w\<lparr>store := (store w)[d := (kind, map dataEntry elems)]\<rparr>)"
    using same by (simp add: world_store_same sk partlyDecoded_all)
  have after: "getProp ((store w)[d := (kind, map dataEntry elems)]) (VRef a) ''data'' = Inr (VRef d)"
    using data ad by (simp add: getProp_update_other)
  show ?thesis
    using ty data keys loop after
    by (auto simp del: unwrapFromJson.simps simp add: unwrapFromJson.simps(2) [of E "Suc n"])
qed

text \<open>
  C8 (purity of encoder and decoder), as stated: it fails on the code. The decode of
  the parsed text \<open>{"type":"array","data":[{"type":"plain","data":5}]}\<close> returns the array
  of the input itself, after it has put the number 5 in the place of the node: the input
  tree is not what it was.
\<close>

theorem decode_overwrites_its_input:
  "(let h = [plainObject [(''type'', VStr ''plain''), (''data'', VNum (Fin 5))],
             (KArray 1, [(''0'', VRef 0)]),
             plainObject [(''type'', VStr ''array''), (''data'', VRef 1)]];
        w = newWorld\<lparr>store := h\<rparr>
    in JSON_parse (JObj [(''type'', JStr ''array''),
                         (''data'', JArr [JObj [(''type'', JStr ''plain''), (''data'', JNum 5)]])]) []
         = (VRef 2, h) \<and>
       unwrapFromJson sampleEngine 2 (VRef 2) w
         = (Inr (VRef 1), w\<lparr>store := h[1 := (KArray 1, [(''0'', VNum (Fin 5))])]\<rparr>) \<and>
       deref (store (snd (unwrapFromJson sampleEngine 2 (VRef 2) w))) 1 \<noteq> deref (store w) 1)"
  by (simp add: evaluation)

text \<open>
  C8, amended. An encode changes no object that exists and not the console; it changes
  the pool by \<open>getId\<close> only and does not call a specifier. A decode changes neither the
  pool nor the record of host calls nor the console and removes no object; what it returns
  and what it makes of the store depend on the store and the pool only. It is not pure on
  its input: the value it returns for a node of type \<open>array\<close> or \<open>dict\<close> is the \<open>data\<close>
  property of the node, the container of the input itself, and the loop assigns into that
  container. Where the container holds \<open>plain\<close> nodes, after the decode it holds under
  each key the \<open>data\<close> of the node that stood there, and nothing else of the store has
  changed.
\<close>

theorem encoder_decoder_frame:
  assumes "wrapToJson n obj w = (r, w')"
    and "unwrapFromJson E m node v = (r', v')"
  shows "encodeFrame w w' \<and> decodeFrame v v' \<and>
         (\<forall>u::world. store u = store v \<and> objectPoolManager u = objectPoolManager v \<longrightarrow>
              unwrapFromJson E m node u = (r', u\<lparr>store := store v'\<rparr>)) \<and>
         (\<forall>ty x. getProp (store v) node ''type'' = Inr ty \<and>
                 (ty = VStr ''array'' \<or> ty = VStr ''dict'') \<and> r' = Inr x \<longrightarrow>
                 getProp (store v') node ''data'' = Inr x) \<and>
         (\<forall>a d kind elems.
            node = VRef a \<and> 2 \<le> m \<and> flatContainer (store v) a d kind elems \<longrightarrow>
            r' = Inr (VRef d) \<and> store v' = (store v)[d := (kind, map dataEntry elems)])"
proof (intro conjI allI impI)
  show "encodeFrame w w'" using assms(1) by (rule wrapToJson_frame)
  show "decodeFrame v v'" using assms(2) by (rule unwrapFromJson_frame)
next
  fix u :: world
  assume "store u = store v \<and> objectPoolManager u = objectPoolManager v"
  then show "unwrapFromJson E m node u = (r', u\<lparr>store := store v'\<rparr>)"
    using unwrapFromJson_state [OF assms(2)] by blast
next
  fix ty x
  assume a: "getProp (store v) node ''type'' = Inr ty \<and>
             (ty = VStr ''array'' \<or> ty = VStr ''dict'') \<and> r' = Inr x"
  then have "unwrapFromJson E m node v = (Inr x, v')" using assms(2) by simp
  then show "getProp (store v') node ''data'' = Inr x"
    using a by (blast intro: unwrapFromJson_returns_container)
next
  fix a d kind elems
  assume f: "node = VRef a \<and> 2 \<le> m \<and> flatContainer (store v) a d kind elems"
  then obtain k where m: "m = Suc (Suc k)" by (metis Suc_le_D numeral_2_eq_2 Suc_le_mono)
  have "unwrapFromJson E m node v
      = (Inr (VRef d), v\<lparr>store := (store v)[d := (kind, map dataEntry elems)]\<rparr>)"
    unfolding m using f by (simp add: unwrapFromJson_flat_container del: unwrapFromJson.simps)
  then have res: "r' = Inr (VRef d)" "v' = v\<lparr>store := (store v)[d := (kind, map dataEntry elems)]\<rparr>"
    using assms(2) by simp_all
  show "r' = Inr (VRef d)" by (rule res(1))
  show "store v' = (store v)[d := (kind, map dataEntry elems)]" using res(2) by simp
qed

theorem encoder_decoder_frame_witness:
  "(let h = [plainObject [(''type'', VStr ''plain''), (''data'', VNum (Fin 5))],
             (KArray 1, [(''0'', VRef 0)]),
             plainObject [(''type'', VStr ''array''), (''data'', VRef 1)]];
        v = newWorld\<lparr>store := h\<rparr>;
        v' = v\<lparr>store := h[1 := (KArray 1, [(''0'', VNum (Fin 5))])]\<rparr>;
        w' = v\<lparr>store := h @ [plainObject [(''type'', VStr ''plain''), (''data'', VNum (Fin 42))]]\<rparr>
    in wrapToJson 1 (VNum (Fin 42)) v = (Inr (VRef 3), w') \<and>
       unwrapFromJson sampleEngine 2 (VRef 2) v = (Inr (VRef 1), v') \<and>
       flatContainer (store v) 2 1 (KArray 1) [(''0'', 0, VNum (Fin 5))] \<and>
       encodeFrame v w' \<and> decodeFrame v v' \<and>
       unwrapFromJson sampleEngine 2 (VRef 2) (v\<lparr>console := [ErrorWrappingResult TypeError]\<rparr>)
         = (Inr (VRef 1), v'\<lparr>console := [ErrorWrappingResult TypeError]\<rparr>) \<and>
       getProp (store v') (VRef 2) ''data'' = Inr (VRef 1) \<and>
       store v' = (store v)[1 := (KArray 1, map dataEntry [(''0'', 0, VNum (Fin 5))])])"
proof -
  define h where "h = [plainObject [(''type'', VStr ''plain''), (''data'', VNum (Fin 5))],
             (KArray 1, [(''0'', VRef 0)]),
             plainObject [(''type'', VStr ''array''), (''data'', VRef 1)]]"
  define v where "v = newWorld\<lparr>store := h\<rparr>"
  define v' where "v' = v\<lparr>store := h[1 := (KArray 1, [(''0'', VNum (Fin 5))])]\<rparr>"
  define w' where "w' = v\<lparr>store := h @ [plainObject [(''type'', VStr ''plain''), (''data'', VNum (Fin 42))]]\<rparr>"
  have enc: "wrapToJson 1 (VNum (Fin 42)) v = (Inr (VRef 3), w')"
    by (simp add: v_def w'_def h_def newWorld_def isJsonNode_def typeof_def alloc_def)
  have dec: "unwrapFromJson sampleEngine 2 (VRef 2) v = (Inr (VRef 1), v')"
    by (simp add: v_def v'_def h_def evaluation)
  have flat: "flatContainer (store v) 2 1 (KArray 1) [(''0'', 0, VNum (Fin 5))]"
    by (simp add: flatContainer_def v_def h_def getProp_def valueAt_def deref_def plainObject_def
        nodeEntry_def indicesInRange_def)
  note fr = encoder_decoder_frame [OF enc dec]
  have f1: "encodeFrame v w'" using fr by (rule conjunct1)
  have f2: "decodeFrame v v'" using fr by (elim conjE)
  have f3: "\<forall>u::world. store u = store v \<and> objectPoolManager u = objectPoolManager v \<longrightarrow>
              unwrapFromJson sampleEngine 2 (VRef 2) u = (Inr (VRef 1), u\<lparr>store := store v'\<rparr>)"
    using fr by (elim conjE)
  have f4: "\<forall>ty x. getProp (store v) (VRef 2) ''type'' = Inr ty \<and>
                 (ty = VStr ''array'' \<or> ty = VStr ''dict'') \<and> Inr (VRef 1) = (Inr x :: error + jsval) \<longrightarrow>
                 getProp (store v') (VRef 2) ''data'' = Inr x"
    using fr by (elim conjE)
  have f5: "\<forall>a d kind elems.
            VRef 2 = VRef a \<and> (2 :: nat) \<le> 2 \<and> flatContainer (store v) a d kind elems \<longrightarrow>
            (Inr (VRef 1) :: error + jsval) = Inr (VRef d) \<and>
            store v' = (store v)[d := (kind, map dataEntry elems)]"
    using fr by (elim conjE)
  have ty: "getProp (store v) (VRef 2) ''type'' = Inr (VStr ''array'')"
    by (simp add: v_def h_def getProp_def valueAt_def deref_def plainObject_def)
  have c3: "unwrapFromJson sampleEngine 2 (VRef 2) (v\<lparr>console := [ErrorWrappingResult TypeError]\<rparr>)
         = (Inr (VRef 1), v'\<lparr>console := [ErrorWrappingResult TypeError]\<rparr>)"
    using f3 [rule_format, of "v\<lparr>console := [ErrorWrappingResult TypeError]\<rparr>"]
    by (simp add: v'_def)
  have c4: "getProp (store v') (VRef 2) ''data'' = Inr (VRef 1)"
    using f4 [rule_format, of "VStr ''array''" "VRef 1"] ty by simp
  have c5: "store v' = (store v)[1 := (KArray 1, map dataEntry [(''0'', 0, VNum (Fin 5))])]"
    using f5 [rule_format, of 2 1 "KArray 1" "[(''0'', 0, VNum (Fin 5))]"] flat by simp
  show ?thesis
    unfolding h_def [symmetric] v_def [symmetric] v'_def [symmetric] w'_def [symmetric] Let_def
    using enc dec flat f1 f2 c3 c4 c5 by (intro conjI)
qed

end
